theory Spec2Isabelle
  imports Main "HOL-Library.Word" "HOL-Library.Signed_Division"
begin

unbundle bit_operations_syntax

section \<open>Machine types\<close>

text \<open>
  Go's \<open>byte\<close> is an unsigned 8-bit integer.  Go's \<open>int\<close>, \<open>int64\<close> and
  \<open>time.Duration\<close> (an \<open>int64\<close> count of nanoseconds) are modelled as 64-bit words, the
  width of \<open>int\<close> on 64-bit targets: \<open>+\<close> and \<open>*\<close> wrap, comparisons of \<open>int\<close> values are
  the signed ones (\<open><s\<close>, \<open>\<le>s\<close>), and a left shift by 64 or more yields 0, as
  \<open>push_bit\<close> does.
\<close>

type_synonym byte = "8 word"
type_synonym gint = "64 word"
type_synonym duration = "64 word"

section \<open>i2clib/relay.go: the bit mapping\<close>

text \<open>\<open>var relay2Addr = []byte{0, 2, 1, 3, 6, 4, 5, 7}\<close>\<close>

definition relay2Addr :: "byte list" where
  "relay2Addr = [0, 2, 1, 3, 6, 4, 5, 7]"

text \<open>
  \<open>addr2Relay\<close> is the table that \<open>init()\<close> builds: a slice of \<open>len(relay2Addr)\<close> zero
  bytes, then \<open>addr2Relay[v] = byte(i)\<close> for every index \<open>i\<close> and value \<open>v\<close> of
  \<open>relay2Addr\<close>, in order.
\<close>

definition addr2Relay :: "byte list" where
  "addr2Relay =
     fold (\<lambda>(i, v) a. a[unat v := word_of_nat i]) (enumerate 0 relay2Addr)
       (replicate (length relay2Addr) 0)"

text \<open>
  \<open>relay2ic\<close>: for \<open>i\<close> from 0 to 7, if \<open>in & (1 << i)\<close> is not 0 then
  \<open>v |= 1 << relay2Addr[i]\<close>; the loop variable is the fold's list \<open>[0..<8]\<close> and \<open>v\<close>
  its accumulator, starting from 0.
\<close>

definition relay2ic :: "gint \<Rightarrow> byte" where
  "relay2ic inp =
     fold (\<lambda>i v. if inp AND push_bit i 1 \<noteq> 0
                  then v OR push_bit (unat (relay2Addr ! i)) 1 else v)
       [0..<8] 0"

definition ic2relay :: "byte \<Rightarrow> gint" where
  "ic2relay inp =
     fold (\<lambda>i v. if inp AND push_bit i 1 \<noteq> 0
                  then v OR push_bit (unat (addr2Relay ! i)) 1 else v)
       [0..<8] 0"

section \<open>The device file and the clock\<close>

text \<open>
  The programs reach the relay board through one device file and the clock.  A run is
  recorded as the list of actions it performed, oldest first.  The outside world is a
  parameter \<open>env\<close>: it answers each action from the whole history up to and including that
  action, so that any behaviour of the bus (a failing write, a short read, any bytes read
  back) is some \<open>env\<close>.  \<open>SetCall\<close> is not an operation of the device: it marks each entry
  into \<open>Relay.Set\<close> with the mask it was given.
\<close>

type_synonym os_error = string

datatype action =
    FileOpen gint
  | FileIoctl nat gint gint
  | FileWrite nat "byte list"
  | FileRead nat nat
  | FileClose nat
  | Sleep duration
  | Exit gint
  | SetCall gint

record answer =
  res_fd :: nat
  res_n :: gint
  res_data :: "byte list"
  res_err :: "os_error option"

type_synonym history = "action list"
type_synonym env = "history \<Rightarrow> answer"

definition perform :: "env \<Rightarrow> action \<Rightarrow> history \<Rightarrow> answer \<times> history" where
  "perform env a h = (env (h @ [a]), h @ [a])"

text \<open>The buffers written to the file, the masks passed to \<open>Relay.Set\<close>, in order.\<close>

fun writes :: "history \<Rightarrow> byte list list" where
  "writes [] = []"
| "writes (FileWrite fd buf # h) = buf # writes h"
| "writes (a # h) = writes h"

fun set_calls :: "history \<Rightarrow> gint list" where
  "set_calls [] = []"
| "set_calls (SetCall m # h) = m # set_calls h"
| "set_calls (a # h) = set_calls h"

section \<open>i2clib/relay.go: the channel\<close>

definition baseAddress :: gint where "baseAddress = 0x27"
definition slaveAddress :: gint where "slaveAddress = 0x0703"
definition readAddress :: byte where "readAddress = 0x00"
definition writeAddress :: byte where "writeAddress = 0x01"

datatype error =
    InvalidBoard
  | CantOpenBus gint os_error
  | CantSetSlave gint gint os_error
  | SetError os_error
  | WriteShort gint nat
  | ReadError os_error
  | ReadShort nat nat
  | InvalidEvent string
  | InvalidDuration string os_error
  | DurationTooShort duration duration
  | InvalidId string "os_error option"

text \<open>
  The struct \<open>Relay\<close>; its field \<open>file\<close> is the descriptor that the open returned
  (\<open>file_fd\<close> here).
\<close>

record Relay =
  file_fd :: nat
  board :: gint

text \<open>
  \<open>Board\<close> stores \<open>n\<close>, selects the slave address with one ioctl, and resets the board
  field to 0 when the ioctl fails.
\<close>

definition Relay_Board :: "env \<Rightarrow> Relay \<Rightarrow> gint \<Rightarrow> history \<Rightarrow> (error option \<times> Relay) \<times> history" where
  "Relay_Board env r n h =
     (let r1 = r\<lparr>board := n\<rparr>;
          addr = baseAddress - ((n - 1) AND 7);
          (res, h1) = perform env (FileIoctl (file_fd r1) slaveAddress addr) h
      in case res_err res of
           Some e \<Rightarrow> ((Some (CantSetSlave slaveAddress addr e), r1\<lparr>board := 0\<rparr>), h1)
         | None \<Rightarrow> ((None, r1), h1))"

text \<open>\<open>NewRelay\<close> returns \<open>(nil, err)\<close>, \<open>(r, err)\<close> or \<open>(r, nil)\<close>.\<close>

datatype new_relay = NoRelay error | RelayWithError Relay error | RelayOk Relay

definition NewRelay :: "env \<Rightarrow> gint \<Rightarrow> gint \<Rightarrow> history \<Rightarrow> new_relay \<times> history" where
  "NewRelay env bus brd h =
     (if brd <s 1 \<or> 8 <s brd then (NoRelay InvalidBoard, h)
      else
        let (res, h1) = perform env (FileOpen bus) h
        in case res_err res of
             Some e \<Rightarrow> (NoRelay (CantOpenBus bus e), h1)
           | None \<Rightarrow>
               let ((err, r), h2) = Relay_Board env \<lparr>file_fd = res_fd res, board = 0\<rparr> brd h1
               in case err of
                    Some e \<Rightarrow> (RelayWithError r e, h2)
                  | None \<Rightarrow> (RelayOk r, h2))"

definition Relay_Set :: "env \<Rightarrow> Relay \<Rightarrow> gint \<Rightarrow> history \<Rightarrow> error option \<times> history" where
  "Relay_Set env r state h =
     (let buf = [writeAddress, relay2ic state];
          (res, h1) = perform env (FileWrite (file_fd r) buf) (h @ [SetCall state])
      in case res_err res of
           Some e \<Rightarrow> (Some (SetError e), h1)
         | None \<Rightarrow>
             if res_n res \<noteq> word_of_nat (length buf)
             then (Some (WriteShort (res_n res) (length buf)), h1)
             else (None, h1))"

text \<open>
  \<open>Get\<close> calls \<open>Read\<close> on the two-byte buffer \<open>{readAddress, 0}\<close>.  \<open>Read\<close> delivers at
  most \<open>len(buf)\<close> bytes into the front of the buffer and returns their number.
\<close>

definition Relay_Get :: "env \<Rightarrow> Relay \<Rightarrow> history \<Rightarrow> (gint \<times> error option) \<times> history" where
  "Relay_Get env r h =
     (let buf = [readAddress, 0];
          (res, h1) = perform env (FileRead (file_fd r) (length buf)) h;
          got = take (length buf) (res_data res);
          n = length got;
          buf1 = got @ drop n buf
      in case res_err res of
           Some e \<Rightarrow> ((0, Some (ReadError e)), h1)
         | None \<Rightarrow>
             if n \<noteq> length buf then ((0, Some (ReadShort n (length buf))), h1)
             else ((ic2relay (buf1 ! 1), None), h1))"

definition Relay_Close :: "env \<Rightarrow> Relay \<Rightarrow> history \<Rightarrow> os_error option \<times> history" where
  "Relay_Close env r h = (let (res, h1) = perform env (FileClose (file_fd r)) h in (res_err res, h1))"

section \<open>cmd/sprinkler/sprinkler.go\<close>

definition Second :: duration where "Second = 1000000000"

definition offTime :: duration where "offTime = Second * 3"

text \<open>The struct \<open>event\<close>; its field \<open>id\<close> is \<open>id_ev\<close> here.\<close>

record event =
  id_ev :: gint
  dur :: duration

text \<open>
  \<open>scale\<close>: the product wraps in \<open>int64\<close>, the division by 100 truncates towards zero,
  the comparison is signed.
\<close>

definition scale :: "duration \<Rightarrow> gint \<Rightarrow> duration" where
  "scale d percent =
     (let scaled = word_of_int (sint (d * percent) sdiv 100) :: duration
      in if scaled <s offTime then offTime else scaled)"

text \<open>
  \<open>strings.Split(s, sep)\<close> for a separator of one character: the pieces of \<open>s\<close> between
  the separators, so a string with \<open>n\<close> separators has \<open>n + 1\<close> pieces.
\<close>

fun strings_Split :: "char \<Rightarrow> string \<Rightarrow> string list" where
  "strings_Split c [] = [[]]"
| "strings_Split c (x # xs) =
     (if x = c then [] # strings_Split c xs
      else (case strings_Split c xs of
              p # ps \<Rightarrow> (x # p) # ps
            | [] \<Rightarrow> [[x]]))"

text \<open>
  \<open>event.Set\<close>.  \<open>time.ParseDuration\<close> and \<open>strconv.Atoi\<close> belong to Go's standard
  library and are parameters here; each returns its error or its value.  The event is
  returned unchanged with every error.
\<close>

definition event_Set ::
  "(string \<Rightarrow> os_error + duration) \<Rightarrow> (string \<Rightarrow> os_error + gint) \<Rightarrow>
   event \<Rightarrow> string \<Rightarrow> error option \<times> event" where
  "event_Set ParseDuration Atoi e s =
     (let parts = strings_Split CHR '':'' s
      in if length parts \<noteq> 2 then (Some (InvalidEvent s), e)
         else
           case ParseDuration (parts ! 1) of
             Inl err \<Rightarrow> (Some (InvalidDuration (parts ! 1) err), e)
           | Inr d \<Rightarrow>
               if d <s offTime then (Some (DurationTooShort d offTime), e)
               else
                 case Atoi (parts ! 0) of
                   Inl err \<Rightarrow> (Some (InvalidId (parts ! 0) (Some err)), e)
                 | Inr i \<Rightarrow>
                     if i <s 0 then (Some (InvalidId (parts ! 0) None), e)
                     else (None, e\<lparr>dur := d, id_ev := i\<rparr>))"

text \<open>
  The mask of \<open>event.run\<close>: \<open>var mask int; if e.id > 0 { mask = 1 << (e.id - 1) }\<close>.
\<close>

definition event_mask :: "event \<Rightarrow> gint" where
  "event_mask e = (if 0 <s id_ev e then push_bit (unat (id_ev e - 1)) 1 else 0)"

text \<open>
  \<open>event.run\<close>.  The error of the first \<open>Set\<close> is returned; the result of \<open>r.Set(0)\<close> is
  dropped.  The two lines printed to the error stream are left out.
\<close>

definition event_run :: "env \<Rightarrow> Relay \<Rightarrow> event \<Rightarrow> gint \<Rightarrow> history \<Rightarrow> error option \<times> history" where
  "event_run env r e pct h =
     (let mask = event_mask e;
          (err, h1) = Relay_Set env r mask h
      in case err of
           Some x \<Rightarrow> (Some x, h1)
         | None \<Rightarrow>
             let d = scale (dur e) pct;
                 (u1, h2) = perform env (Sleep d) h1;
                 (u2, h3) = Relay_Set env r 0 h2;
                 (u3, h4) = perform env (Sleep offTime) h3
             in (None, h4))"

text \<open>\<open>program.Set\<close>: the loop over the pieces, each parsed into a fresh zero event.\<close>

fun program_Set_loop ::
  "(string \<Rightarrow> os_error + duration) \<Rightarrow> (string \<Rightarrow> os_error + gint) \<Rightarrow>
   event list \<Rightarrow> string list \<Rightarrow> error option \<times> event list" where
  "program_Set_loop ParseDuration Atoi p [] = (None, p)"
| "program_Set_loop ParseDuration Atoi p (v # vs) =
     (case event_Set ParseDuration Atoi \<lparr>id_ev = 0, dur = 0\<rparr> v of
        (Some err, e) \<Rightarrow> (Some err, p)
      | (None, e) \<Rightarrow> program_Set_loop ParseDuration Atoi (p @ [e]) vs)"

definition program_Set ::
  "(string \<Rightarrow> os_error + duration) \<Rightarrow> (string \<Rightarrow> os_error + gint) \<Rightarrow>
   event list \<Rightarrow> string \<Rightarrow> error option \<times> event list" where
  "program_Set ParseDuration Atoi p s =
     program_Set_loop ParseDuration Atoi p (strings_Split CHR '','' s)"

definition program_duration :: "event list \<Rightarrow> gint \<Rightarrow> duration" where
  "program_duration p pct =
     fold (\<lambda>e total. total + scale (dur e) pct) p 0 + word_of_nat (length p) * offTime"

fun program_run :: "env \<Rightarrow> Relay \<Rightarrow> event list \<Rightarrow> gint \<Rightarrow> history \<Rightarrow> error option \<times> history" where
  "program_run env r [] pct h = (None, h)"
| "program_run env r (e # es) pct h =
     (case event_run env r e pct h of
        (Some err, h1) \<Rightarrow> (Some err, h1)
      | (None, h1) \<Rightarrow> program_run env r es pct h1)"

text \<open>
  The goroutine started by \<open>cleanup\<close>, for one received signal: \<open>SIGURG\<close> is skipped,
  \<open>SIGUSR1\<close> reads and reports the state, every other signal sets all relays off, closes
  the file and exits.  Signal numbers are those of Linux.
\<close>

definition SIGURG :: nat where "SIGURG = 23"
definition SIGUSR1 :: nat where "SIGUSR1 = 10"

datatype handled = Continue | Exited

definition cleanup_signal :: "env \<Rightarrow> Relay \<Rightarrow> nat \<Rightarrow> history \<Rightarrow> handled \<times> history" where
  "cleanup_signal env r s h =
     (if s = SIGURG then (Continue, h)
      else if s = SIGUSR1 then (let (i, h1) = Relay_Get env r h in (Continue, h1))
      else
        let (u1, h1) = Relay_Set env r 0 h;
            (u2, h2) = Relay_Close env r h1;
            (u3, h3) = perform env (Exit 0) h2
        in (Exited, h3))"

text \<open>The goroutine's loop over the signals delivered, in order, until it exits.\<close>

fun cleanup_loop :: "env \<Rightarrow> Relay \<Rightarrow> nat list \<Rightarrow> history \<Rightarrow> handled \<times> history" where
  "cleanup_loop env r [] h = (Continue, h)"
| "cleanup_loop env r (s # ss) h =
     (case cleanup_signal env r s h of
        (Exited, h1) \<Rightarrow> (Exited, h1)
      | (Continue, h1) \<Rightarrow> cleanup_loop env r ss h1)"

text \<open>
  \<open>main\<close> after \<open>flag.Parse\<close>, as a function of the parsed flags.  Each way it can end
  is an \<open>outcome\<close>; \<open>defer r.Close()\<close> runs after \<open>prog.run\<close> on both of its results.
\<close>

datatype outcome =
    NoProgram
  | TotalTime duration
  | CantFindBoard error
  | CantTalk error
  | RelaysInUse gint
  | Failed error
  | Finished

definition main ::
  "env \<Rightarrow> event list \<Rightarrow> gint \<Rightarrow> gint \<Rightarrow> gint \<Rightarrow> bool \<Rightarrow> history \<Rightarrow> outcome \<times> history" where
  "main env prog brd bus scl isDuration h =
     (if length prog < 1 then (NoProgram, h)
      else if isDuration then (TotalTime (program_duration prog scl), h)
      else
        case NewRelay env bus brd h of
          (NoRelay e, h1) \<Rightarrow> (CantFindBoard e, h1)
        | (RelayWithError r e, h1) \<Rightarrow> (CantFindBoard e, h1)
        | (RelayOk r, h1) \<Rightarrow>
            let ((i, gerr), h2) = Relay_Get env r h1
            in case gerr of
                 Some e \<Rightarrow> (CantTalk e, h2)
               | None \<Rightarrow>
                   if i \<noteq> 0 then (RelaysInUse i, h2)
                   else
                     let (perr, h3) = program_run env r prog scl h2;
                         (cerr, h4) = Relay_Close env r h3
                     in (case perr of Some e \<Rightarrow> Failed e | None \<Rightarrow> Finished, h4))"

section \<open>The two goroutines, step by step\<close>

text \<open>
  While \<open>prog.run\<close> runs, the goroutine started by \<open>cleanup\<close> runs beside it on the same
  \<open>Relay\<close>, and nothing orders the calls of one against the calls of the other.  Each
  flow is cut into its calls.  The main flow is at one of the four calls of \<open>event.run\<close>
  for the first event left: the on-write, the sleep, the off-write, the settling sleep;
  or \<open>prog.run\<close> has returned.  The goroutine, once it has received a signal other than
  \<open>SIGURG\<close> and \<open>SIGUSR1\<close>, is at \<open>r.Set(0)\<close>, at \<open>r.Close()\<close> or at \<open>os.Exit(0)\<close>, or
  the process is gone.  A schedule says which flow makes the next call; after the exit
  nobody moves.
\<close>

datatype pc = OnWrite | OnSleep | OffWrite | OffSleep

datatype main_flow = Running "event list" pc | Returned "error option"

fun run_step :: "env \<Rightarrow> Relay \<Rightarrow> gint \<Rightarrow> main_flow \<Rightarrow> history \<Rightarrow> main_flow \<times> history" where
  "run_step env r pct (Returned x) h = (Returned x, h)"
| "run_step env r pct (Running [] c) h = (Returned None, h)"
| "run_step env r pct (Running (e # es) OnWrite) h =
     (case Relay_Set env r (event_mask e) h of
        (Some x, h1) \<Rightarrow> (Returned (Some x), h1)
      | (None, h1) \<Rightarrow> (Running (e # es) OnSleep, h1))"
| "run_step env r pct (Running (e # es) OnSleep) h =
     (Running (e # es) OffWrite, snd (perform env (Sleep (scale (dur e) pct)) h))"
| "run_step env r pct (Running (e # es) OffWrite) h =
     (Running (e # es) OffSleep, snd (Relay_Set env r 0 h))"
| "run_step env r pct (Running (e # es) OffSleep) h =
     (Running es OnWrite, snd (perform env (Sleep offTime) h))"

datatype handler = AtSet | AtClose | AtExit | Gone

fun handler_step :: "env \<Rightarrow> Relay \<Rightarrow> handler \<Rightarrow> history \<Rightarrow> handler \<times> history" where
  "handler_step env r AtSet h = (AtClose, snd (Relay_Set env r 0 h))"
| "handler_step env r AtClose h = (AtExit, snd (Relay_Close env r h))"
| "handler_step env r AtExit h = (Gone, snd (perform env (Exit 0) h))"
| "handler_step env r Gone h = (Gone, h)"

datatype turn = MainFlow | Handler

fun interleave ::
  "env \<Rightarrow> Relay \<Rightarrow> gint \<Rightarrow> turn list \<Rightarrow> main_flow \<Rightarrow> handler \<Rightarrow> history \<Rightarrow>
   main_flow \<times> handler \<times> history" where
  "interleave env r pct [] m g h = (m, g, h)"
| "interleave env r pct (t # ts) m Gone h = (m, Gone, h)"
| "interleave env r pct (MainFlow # ts) m g h =
     (case run_step env r pct m h of (m1, h1) \<Rightarrow> interleave env r pct ts m1 g h1)"
| "interleave env r pct (Handler # ts) m g h =
     (case handler_step env r g h of (g1, h1) \<Rightarrow> interleave env r pct ts m g1 h1)"

section \<open>The actions of one call and of one event\<close>

text \<open>
  \<open>set_actions r m\<close> are the actions of one call \<open>r.Set(m)\<close>: the entry marker and the
  two-byte write.  \<open>event_actions r pct e\<close> are the actions of one event that runs to its
  end: zone on, wait, all off, settle.
\<close>

definition set_actions :: "Relay \<Rightarrow> gint \<Rightarrow> action list" where
  "set_actions r m = [SetCall m, FileWrite (file_fd r) [writeAddress, relay2ic m]]"

definition event_actions :: "Relay \<Rightarrow> gint \<Rightarrow> event \<Rightarrow> action list" where
  "event_actions r pct e =
     set_actions r (event_mask e) @ [Sleep (scale (dur e) pct)] @
     set_actions r 0 @ [Sleep offTime]"

section \<open>Sample inputs\<close>

text \<open>
  Concrete worlds and library behaviours for the examples.  \<open>env_ok\<close>: every operation
  succeeds, the file descriptor is 3, writes are complete and reads deliver two zero
  bytes.  \<open>env_busy\<close>: the same, but reads deliver the wire byte 4 (zone 2 energised).
  \<open>env_short_read\<close>: reads deliver one byte.  \<open>env_read_fails\<close>: reads fail.
  \<open>env_write_fails\<close>: every write fails.  \<open>env_second_write_fails\<close>: only the second
  write of the run fails.
\<close>

definition ok_answer :: answer where
  "ok_answer = \<lparr>res_fd = 3, res_n = 2, res_data = [0, 0], res_err = None\<rparr>"

definition env_ok :: env where
  "env_ok h = ok_answer"

definition env_busy :: env where
  "env_busy h = ok_answer\<lparr>res_data := [0, 4]\<rparr>"

definition env_short_read :: env where
  "env_short_read h = ok_answer\<lparr>res_data := [7]\<rparr>"

definition env_read_fails :: env where
  "env_read_fails h = ok_answer\<lparr>res_data := [], res_err := Some ''EIO''\<rparr>"

definition is_write :: "action \<Rightarrow> bool" where
  "is_write a = (case a of FileWrite fd buf \<Rightarrow> True | _ \<Rightarrow> False)"

definition env_write_fails :: env where
  "env_write_fails h =
     (if h \<noteq> [] \<and> is_write (last h) then ok_answer\<lparr>res_n := 0, res_err := Some ''EIO''\<rparr>
      else ok_answer)"

definition env_second_write_fails :: env where
  "env_second_write_fails h =
     (if h \<noteq> [] \<and> is_write (last h) \<and> length (writes h) = 2
      then ok_answer\<lparr>res_n := 0, res_err := Some ''EIO''\<rparr>
      else ok_answer)"

text \<open>
  Stand-ins for \<open>time.ParseDuration\<close> and \<open>strconv.Atoi\<close> that know the strings of
  the examples only.
\<close>

definition sample_ParseDuration :: "string \<Rightarrow> os_error + duration" where
  "sample_ParseDuration s =
     (if s = ''10s'' then Inr (10 * Second)
      else if s = ''1s'' then Inr Second
      else Inl ''invalid duration'')"

definition sample_Atoi :: "string \<Rightarrow> os_error + gint" where
  "sample_Atoi s =
     (if s = ''1'' then Inr 1
      else if s = ''2'' then Inr 2
      else if s = ''70'' then Inr 70
      else if s = ''-1'' then Inr (- 1)
      else Inl ''invalid syntax'')"

text \<open>
  A schedule for a signal that arrives as the settling sleep of the first event ends:
  the main flow finishes the first event, the goroutine calls \<open>r.Set(0)\<close>, the main flow
  makes the on-write of the second event, the goroutine closes the file and exits.
\<close>

definition race_schedule :: "turn list" where
  "race_schedule = [MainFlow, MainFlow, MainFlow, MainFlow, Handler, MainFlow, Handler, Handler]"

definition relay3 :: Relay where
  "relay3 = \<lparr>file_fd = 3, board = 1\<rparr>"

definition ten_seconds :: "gint \<Rightarrow> event" where
  "ten_seconds i = \<lparr>id_ev = i, dur = 10 * Second\<rparr>"

section \<open>The bit mapping is a permutation of the eight mask bits\<close>

lemma upt8: "[0..<8] = [0, 1, 2, 3, 4, 5, 6, 7]"
  by (simp add: upt_rec)

lemma addr2Relay_eq: "addr2Relay = [0, 2, 1, 3, 5, 6, 4, 7]"
  by (simp add: addr2Relay_def relay2Addr_def enumerate_eq_zip upt_rec)

lemma and_bit_test: "(w AND push_bit i 1 \<noteq> 0) = bit w i" for w :: "'a::len word"
  by (rule bit_iff_and_push_bit_not_eq_0 [symmetric])

lemma or_if: "(if c then v OR x else v) = v OR (if c then x else 0)" for v :: "'a::len word"
  by simp

lemma bit_if0: "bit (if c then x else 0) n = (c \<and> bit x n)" for x :: "'a::len word"
  by simp

lemma bit_push1: "bit (push_bit k 1 :: 'a::len word) n = (n = k \<and> k < LENGTH('a))"
  by (auto simp add: bit_push_bit_iff bit_1_iff simp del: push_bit_of_1)

lemma bit_relay2ic: "bit (relay2ic m) n \<longleftrightarrow> n < 8 \<and> bit m (unat (addr2Relay ! n))"
proof -
  have "bit (relay2ic m) n \<longleftrightarrow>
     (n = 0 \<and> bit m 0) \<or> (n = 2 \<and> bit m 1) \<or> (n = 1 \<and> bit m 2) \<or> (n = 3 \<and> bit m 3) \<or>
     (n = 6 \<and> bit m 4) \<or> (n = 4 \<and> bit m 5) \<or> (n = 5 \<and> bit m 6) \<or> (n = 7 \<and> bit m 7)"
    unfolding relay2ic_def upt8 relay2Addr_def and_bit_test or_if fold_simps id_apply o_apply
      bit_or_iff bit_if0 bit_push1 nth_Cons_0 nth_Cons_numeral nth_Cons_Suc
    by auto
  also have "\<dots> \<longleftrightarrow> n < 8 \<and> bit m (unat (addr2Relay ! n))"
    unfolding addr2Relay_eq
    by (auto simp add: nth_Cons split: nat.splits)
  finally show ?thesis .
qed

lemma bit_ic2relay: "bit (ic2relay b) n \<longleftrightarrow> n < 8 \<and> bit b (unat (relay2Addr ! n))"
proof -
  have "bit (ic2relay b) n \<longleftrightarrow>
     (n = 0 \<and> bit b 0) \<or> (n = 2 \<and> bit b 1) \<or> (n = 1 \<and> bit b 2) \<or> (n = 3 \<and> bit b 3) \<or>
     (n = 5 \<and> bit b 4) \<or> (n = 6 \<and> bit b 5) \<or> (n = 4 \<and> bit b 6) \<or> (n = 7 \<and> bit b 7)"
    unfolding ic2relay_def upt8 addr2Relay_eq and_bit_test or_if fold_simps id_apply o_apply
      bit_or_iff bit_if0 bit_push1 nth_Cons_0 nth_Cons_numeral nth_Cons_Suc
    by auto
  also have "\<dots> \<longleftrightarrow> n < 8 \<and> bit b (unat (relay2Addr ! n))"
    unfolding relay2Addr_def
    by (auto simp add: nth_Cons split: nat.splits)
  finally show ?thesis .
qed

lemma perm_a2r: "n < 8 \<Longrightarrow> unat (relay2Addr ! unat (addr2Relay ! n)) = n"
  unfolding addr2Relay_eq relay2Addr_def
  by (auto simp add: nth_Cons split: nat.splits)

lemma perm_r2a: "n < 8 \<Longrightarrow> unat (addr2Relay ! unat (relay2Addr ! n)) = n"
  unfolding addr2Relay_eq relay2Addr_def
  by (auto simp add: nth_Cons split: nat.splits)

lemma perm_a2r_lt: "n < 8 \<Longrightarrow> unat (addr2Relay ! n) < 8"
  unfolding addr2Relay_eq
  by (auto simp add: nth_Cons split: nat.splits)

lemma perm_r2a_lt: "n < 8 \<Longrightarrow> unat (relay2Addr ! n) < 8"
  unfolding relay2Addr_def
  by (auto simp add: nth_Cons split: nat.splits)

lemma bit_255: "bit (255 :: gint) n \<longleftrightarrow> n < 8"
proof -
  have eq: "(255 :: gint) = mask 8"
    by (simp add: mask_eq_exp_minus_1)
  show ?thesis
    unfolding eq by (auto simp add: bit_mask_iff)
qed

text \<open>Whatever the \<open>int\<close> passed in, only its low eight bits reach the wire byte.\<close>

lemma ic2relay_relay2ic: "ic2relay (relay2ic m) = m AND 255"
proof (rule bit_word_eqI)
  fix n assume "n < LENGTH(64)"
  have rhs: "bit (m AND 255) n = (bit m n \<and> n < 8)"
    unfolding bit_and_iff bit_255 ..
  show "bit (ic2relay (relay2ic m)) n = bit (m AND 255) n"
    unfolding rhs
    by (auto simp add: bit_ic2relay bit_relay2ic perm_r2a perm_r2a_lt)
qed

lemma relay2ic_ic2relay: "relay2ic (ic2relay b) = b"
proof (rule bit_word_eqI)
  fix n assume "n < LENGTH(8)"
  then show "bit (relay2ic (ic2relay b)) n = bit b n"
    by (auto simp add: bit_ic2relay bit_relay2ic perm_a2r perm_a2r_lt)
qed

lemma ic2relay_le_255: "ic2relay b \<le> 255"
proof -
  have "ic2relay b AND 255 = ic2relay b"
  proof (rule bit_word_eqI)
    fix n
    show "bit (ic2relay b AND 255) n = bit (ic2relay b) n"
      unfolding bit_and_iff bit_255 bit_ic2relay by auto
  qed
  then show ?thesis
    by (metis word_and_le1)
qed

lemma le_255_and: "m \<le> 255 \<Longrightarrow> m AND 255 = m" for m :: gint
proof -
  assume "m \<le> 255"
  then have "m < 2 ^ 8"
    by (simp add: word_le_nat_alt word_less_nat_alt)
  then have "m AND mask 8 = m"
    by (rule less_mask_eq)
  then show ?thesis
    by (simp add: mask_eq_exp_minus_1)
qed

text \<open>
  C1.  \<open>relay2ic\<close> and \<open>ic2relay\<close> are total functions and mutual inverses on the 8-bit
  masks: every logical mask \<open>m\<close> in \<open>[0, 255]\<close> satisfies \<open>ic2relay (relay2ic m) = m\<close>,
  every wire byte \<open>b\<close> satisfies \<open>relay2ic (ic2relay b) = b\<close>, and \<open>ic2relay\<close> only
  returns masks in \<open>[0, 255]\<close>.
\<close>

theorem bitmapper_mutual_inverses:
  "(m \<le> 255 \<longrightarrow> ic2relay (relay2ic m) = m) \<and>
   relay2ic (ic2relay b) = b \<and> ic2relay b \<le> 255"
  by (simp add: ic2relay_relay2ic relay2ic_ic2relay ic2relay_le_255 le_255_and)

theorem bitmapper_mutual_inverses_witness:
  "(5 :: gint) \<le> 255 \<and> ic2relay (relay2ic 5) = 5 \<and>
   relay2ic (ic2relay 3) = 3 \<and> ic2relay 3 \<le> 255"
  using bitmapper_mutual_inverses [of 5 3] by simp

section \<open>Splitting, parsing and durations\<close>

lemma split_no_sep: "c \<notin> set a \<Longrightarrow> strings_Split c a = [a]"
  by (induction a) auto

lemma split_append: "c \<notin> set a \<Longrightarrow> strings_Split c (a @ c # b) = a # strings_Split c b"
  by (induction a) auto

lemma split_not_Nil: "strings_Split c s \<noteq> []"
  by (induction s) (auto split: list.splits)

lemma length_split: "length (strings_Split c s) = Suc (count_list s c)"
  by (induction s) (auto split: list.splits simp add: split_not_Nil)

lemma split_two_fields:
  "c \<notin> set a \<Longrightarrow> c \<notin> set b \<Longrightarrow> strings_Split c (a @ c # b) = [a, b]"
  by (simp add: split_append split_no_sep)

lemma fold_scale_sum:
  "fold (\<lambda>e total. total + scale (dur e) pct) p acc =
     acc + sum_list (map (\<lambda>e. scale (dur e) pct) p)"
  by (induction p arbitrary: acc) (simp_all add: add.assoc)

lemma duration_formula:
  "program_duration p pct =
     sum_list (map (\<lambda>e. scale (dur e) pct) p) + word_of_nat (length p) * offTime"
  by (simp add: program_duration_def fold_scale_sum)

lemma scale_10s: "scale (10 * Second) 100 = 10 * Second"
  by (simp add: scale_def Second_def offTime_def signed_divide_int_def word_sless_alt)

lemma scenarioA:
  "program_duration [\<lparr>id_ev = 1, dur = 10 * Second\<rparr>, \<lparr>id_ev = 2, dur = 10 * Second\<rparr>] 100
     = 26 * Second"
  by (simp add: duration_formula scale_10s) (simp add: Second_def offTime_def)

lemma event_Set_two_fields:
  assumes "CHR '':'' \<notin> set a" "CHR '':'' \<notin> set b"
  shows "event_Set P A e (a @ CHR '':'' # b) =
     (case P b of
        Inl err \<Rightarrow> (Some (InvalidDuration b err), e)
      | Inr d \<Rightarrow>
          if d <s offTime then (Some (DurationTooShort d offTime), e)
          else
            case A a of
              Inl err \<Rightarrow> (Some (InvalidId a (Some err)), e)
            | Inr i \<Rightarrow>
                if i <s 0 then (Some (InvalidId a None), e)
                else (None, e\<lparr>dur := d, id_ev := i\<rparr>))"
  using assms by (simp add: event_Set_def split_two_fields Let_def split: sum.splits)

lemma loop_prefix:
  "list_all2 (\<lambda>t e. event_Set P A \<lparr>id_ev = 0, dur = 0\<rparr> t = (None, e)) pre es \<Longrightarrow>
   program_Set_loop P A p (pre @ rest) = program_Set_loop P A (p @ es) rest"
proof (induction pre es arbitrary: p rule: list_all2_induct)
  case Nil
  then show ?case by simp
next
  case (Cons t ts e es)
  then show ?case by simp
qed

lemma program_Set_partial:
  assumes "strings_Split CHR '','' s = pre @ v # post"
    and "list_all2 (\<lambda>t e. event_Set P A \<lparr>id_ev = 0, dur = 0\<rparr> t = (None, e)) pre es"
    and "event_Set P A \<lparr>id_ev = 0, dur = 0\<rparr> v = (Some err, e')"
  shows "program_Set P A p s = (Some err, p @ es)"
  using assms by (simp add: program_Set_def loop_prefix)



lemma sge9_unat:
  assumes "9 \<le>s (i :: gint)"
  shows "8 \<le> unat (i - 1)"
proof (rule ccontr)
  assume "\<not> 8 \<le> unat (i - 1)"
  then have k: "unat (i - 1) < 8" by simp
  define k where "k = unat (i - 1)"
  have ik: "i = word_of_nat k + 1"
    unfolding k_def by simp
  have "k \<in> {0, 1, 2, 3, 4, 5, 6, 7}"
    using k unfolding k_def by auto
  then have "word_of_nat k + 1 \<in> {1, 2, 3, 4, 5, 6, 7, 8 :: gint}"
    by auto
  then have "i \<in> {1, 2, 3, 4, 5, 6, 7, 8}"
    using ik by simp
  then have "\<not> 9 \<le>s i"
    by (auto simp add: word_sle_eq)
  with assms show False by simp
qed

lemma relay2ic_high_bit: "8 \<le> k \<Longrightarrow> relay2ic (push_bit k 1) = 0"
proof (rule bit_word_eqI)
  fix n assume "8 \<le> k" "n < LENGTH(8)"
  then have "unat (addr2Relay ! n) < 8"
    by (simp add: perm_a2r_lt)
  with \<open>8 \<le> k\<close> show "bit (relay2ic (push_bit k 1)) n = bit (0 :: byte) n"
    unfolding bit_relay2ic bit_push1 by auto
qed

lemma relay2ic_zero: "relay2ic 0 = 0"
  by (rule bit_word_eqI) (simp add: bit_relay2ic)

section \<open>The actions of a run\<close>

lemma writes_append: "writes (a @ b) = writes a @ writes b"
  by (induction a rule: writes.induct) simp_all

lemma set_calls_append: "set_calls (a @ b) = set_calls a @ set_calls b"
  by (induction a rule: set_calls.induct) simp_all

lemma Relay_Set_history: "snd (Relay_Set env r m h) = h @ set_actions r m"
  by (simp add: Relay_Set_def set_actions_def perform_def Let_def split: option.splits)

lemma event_run_failed:
  assumes "fst (Relay_Set env r (event_mask e) h) = Some x"
  shows "event_run env r e pct h = (Some x, h @ set_actions r (event_mask e))"
  using assms Relay_Set_history [of env r "event_mask e" h]
  by (auto simp add: event_run_def split: prod.splits)

lemma event_run_ok:
  assumes "fst (Relay_Set env r (event_mask e) h) = None"
  shows "event_run env r e pct h = (None, h @ event_actions r pct e)"
  using assms Relay_Set_history [of env r "event_mask e" h]
    Relay_Set_history [of env r 0 "h @ set_actions r (event_mask e) @ [Sleep (scale (dur e) pct)]"]
  by (auto simp add: event_run_def event_actions_def perform_def Let_def split: prod.splits)

lemma program_run_None:
  "program_run env r p pct h = (None, h1) \<Longrightarrow>
   h1 = h @ concat (map (event_actions r pct) p)"
proof (induction p arbitrary: h)
  case Nil
  then show ?case by simp
next
  case (Cons e es)
  show ?case
  proof (cases "fst (Relay_Set env r (event_mask e) h)")
    case None
    then have "event_run env r e pct h = (None, h @ event_actions r pct e)"
      by (rule event_run_ok)
    with Cons.prems have "program_run env r es pct (h @ event_actions r pct e) = (None, h1)"
      by simp
    then have "h1 = (h @ event_actions r pct e) @ concat (map (event_actions r pct) es)"
      by (rule Cons.IH)
    then show ?thesis by simp
  next
    case (Some x)
    then have "event_run env r e pct h = (Some x, h @ set_actions r (event_mask e))"
      by (rule event_run_failed)
    with Cons.prems show ?thesis by simp
  qed
qed

lemma program_run_Some:
  "program_run env r p pct h = (Some x, h1) \<Longrightarrow>
   \<exists>k < length p.
     h1 = h @ concat (map (event_actions r pct) (take k p)) @ set_actions r (event_mask (p ! k)) \<and>
     fst (Relay_Set env r (event_mask (p ! k))
            (h @ concat (map (event_actions r pct) (take k p)))) = Some x"
proof (induction p arbitrary: h)
  case Nil
  then show ?case by simp
next
  case (Cons e es)
  show ?case
  proof (cases "fst (Relay_Set env r (event_mask e) h)")
    case None
    then have "event_run env r e pct h = (None, h @ event_actions r pct e)"
      by (rule event_run_ok)
    with Cons.prems have "program_run env r es pct (h @ event_actions r pct e) = (Some x, h1)"
      by simp
    from Cons.IH [OF this] obtain k where k: "k < length es"
      "h1 = (h @ event_actions r pct e) @ concat (map (event_actions r pct) (take k es)) @
              set_actions r (event_mask (es ! k))"
      "fst (Relay_Set env r (event_mask (es ! k))
            ((h @ event_actions r pct e) @ concat (map (event_actions r pct) (take k es)))) = Some x"
      by blast
    then have "Suc k < length (e # es) \<and>
       h1 = h @ concat (map (event_actions r pct) (take (Suc k) (e # es))) @
              set_actions r (event_mask ((e # es) ! Suc k)) \<and>
       fst (Relay_Set env r (event_mask ((e # es) ! Suc k))
            (h @ concat (map (event_actions r pct) (take (Suc k) (e # es))))) = Some x"
      by simp
    then show ?thesis by blast
  next
    case (Some y)
    then have "event_run env r e pct h = (Some y, h @ set_actions r (event_mask e))"
      by (rule event_run_failed)
    with Cons.prems Some have "0 < length (e # es) \<and>
       h1 = h @ concat (map (event_actions r pct) (take 0 (e # es))) @
              set_actions r (event_mask ((e # es) ! 0)) \<and>
       fst (Relay_Set env r (event_mask ((e # es) ! 0))
            (h @ concat (map (event_actions r pct) (take 0 (e # es))))) = Some x"
      by simp
    then show ?thesis by blast
  qed
qed

section \<open>Parsing and total duration\<close>

lemma ten_not_short: "\<not> 10 * Second <s offTime"
  by (simp add: Second_def offTime_def)

lemma one_short: "Second <s offTime"
  by (simp add: Second_def offTime_def)

lemma one_not_neg: "\<not> (1 :: gint) <s 0"
  by (simp add: word_sless_alt)

lemma two_not_neg: "\<not> (2 :: gint) <s 0"
  by (simp add: word_sless_alt)

lemma split_scenarioA:
  "strings_Split CHR '','' ''1:10s,2:10s'' = [''1:10s'', ''2:10s'']"
  by simp

text \<open>
  C5.  For every program and every percent scale, \<open>program.duration\<close> is the sum over
  the events of \<open>scale\<close> of the event's duration, plus the number of events times the
  settling delay \<open>offTime\<close> (in \<open>int64\<close> arithmetic, as the code computes it).  The
  settling delay is 3 seconds, and the program \<open>1:10s,2:10s\<close> at scale 100 lasts 26
  seconds.
\<close>

theorem total_duration_formula:
  "program_duration p pct =
     sum_list (map (\<lambda>e. scale (dur e) pct) p) + word_of_nat (length p) * offTime \<and>
   offTime = 3 * Second \<and>
   (ParseDuration ''10s'' = Inr (10 * Second) \<and> Atoi ''1'' = Inr 1 \<and> Atoi ''2'' = Inr 2 \<longrightarrow>
      program_Set ParseDuration Atoi [] ''1:10s,2:10s'' = (None, [ten_seconds 1, ten_seconds 2]) \<and>
      program_duration [ten_seconds 1, ten_seconds 2] 100 = 26 * Second)"
proof (intro conjI impI)
  show "program_duration p pct =
     sum_list (map (\<lambda>e. scale (dur e) pct) p) + word_of_nat (length p) * offTime"
    by (rule duration_formula)
  show "offTime = 3 * Second"
    by (simp add: offTime_def)
  show "program_duration [ten_seconds 1, ten_seconds 2] 100 = 26 * Second"
    using scenarioA by (simp add: ten_seconds_def)
next
  assume lib: "ParseDuration ''10s'' = Inr (10 * Second) \<and> Atoi ''1'' = Inr 1 \<and> Atoi ''2'' = Inr 2"
  have e1: "event_Set ParseDuration Atoi \<lparr>id_ev = 0, dur = 0\<rparr> (''1'' @ CHR '':'' # ''10s'') =
              (None, ten_seconds 1)"
    using lib event_Set_two_fields [of "''1''" "''10s''" ParseDuration Atoi "\<lparr>id_ev = 0, dur = 0\<rparr>"]
    by (simp add: ten_not_short ten_seconds_def one_not_neg two_not_neg)
  have e2: "event_Set ParseDuration Atoi \<lparr>id_ev = 0, dur = 0\<rparr> (''2'' @ CHR '':'' # ''10s'') =
              (None, ten_seconds 2)"
    using lib event_Set_two_fields [of "''2''" "''10s''" ParseDuration Atoi "\<lparr>id_ev = 0, dur = 0\<rparr>"]
    by (simp add: ten_not_short ten_seconds_def one_not_neg two_not_neg)
  show "program_Set ParseDuration Atoi [] ''1:10s,2:10s'' = (None, [ten_seconds 1, ten_seconds 2])"
    unfolding program_Set_def split_scenarioA using e1 e2 by simp
qed

theorem total_duration_formula_witness:
  "sample_ParseDuration ''10s'' = Inr (10 * Second) \<and> sample_Atoi ''1'' = Inr 1 \<and>
   sample_Atoi ''2'' = Inr 2 \<and>
   program_Set sample_ParseDuration sample_Atoi [] ''1:10s,2:10s'' =
     (None, [ten_seconds 1, ten_seconds 2]) \<and>
   program_duration [ten_seconds 1, ten_seconds 2] 100 = 26 * Second"
  using total_duration_formula [of "[]" 100 sample_ParseDuration sample_Atoi]
  by (simp add: sample_ParseDuration_def sample_Atoi_def)

text \<open>
  C6.  \<open>event.Set\<close> splits its input at the colons and returns an error naming the
  offending text when the number of fields is not two, when the duration does not parse,
  when the duration is below the settling delay (as for \<open>1:1s\<close>), when the id does not
  parse or is negative; otherwise the event holds the parsed id and duration.  The event
  is unchanged with every error.
\<close>

theorem event_Set_checks:
  assumes "CHR '':'' \<notin> set a" and "CHR '':'' \<notin> set b"
  shows
   "length (strings_Split CHR '':'' s) = Suc (count_list s CHR '':'') \<and>
    (length (strings_Split CHR '':'' s) \<noteq> 2 \<longrightarrow>
       event_Set P A e s = (Some (InvalidEvent s), e)) \<and>
    strings_Split CHR '':'' (a @ '':'' @ b) = [a, b] \<and>
    (\<forall>err. P b = Inl err \<longrightarrow>
       event_Set P A e (a @ '':'' @ b) = (Some (InvalidDuration b err), e)) \<and>
    (\<forall>d. P b = Inr d \<and> d <s offTime \<longrightarrow>
       event_Set P A e (a @ '':'' @ b) = (Some (DurationTooShort d offTime), e)) \<and>
    (\<forall>d err. P b = Inr d \<and> \<not> d <s offTime \<and> A a = Inl err \<longrightarrow>
       event_Set P A e (a @ '':'' @ b) = (Some (InvalidId a (Some err)), e)) \<and>
    (\<forall>d i. P b = Inr d \<and> \<not> d <s offTime \<and> A a = Inr i \<and> i <s 0 \<longrightarrow>
       event_Set P A e (a @ '':'' @ b) = (Some (InvalidId a None), e)) \<and>
    (\<forall>d i. P b = Inr d \<and> \<not> d <s offTime \<and> A a = Inr i \<and> \<not> i <s 0 \<longrightarrow>
       event_Set P A e (a @ '':'' @ b) = (None, e\<lparr>dur := d, id_ev := i\<rparr>)) \<and>
    (P ''1s'' = Inr Second \<longrightarrow>
       event_Set P A e ''1:1s'' = (Some (DurationTooShort Second offTime), e))"
proof -
  have two: "event_Set P A e (a @ '':'' @ b) =
     (case P b of
        Inl err \<Rightarrow> (Some (InvalidDuration b err), e)
      | Inr d \<Rightarrow>
          if d <s offTime then (Some (DurationTooShort d offTime), e)
          else
            case A a of
              Inl err \<Rightarrow> (Some (InvalidId a (Some err)), e)
            | Inr i \<Rightarrow>
                if i <s 0 then (Some (InvalidId a None), e)
                else (None, e\<lparr>dur := d, id_ev := i\<rparr>))"
    using event_Set_two_fields [OF assms, of P A e] by simp
  have scen: "P ''1s'' = Inr Second \<longrightarrow>
       event_Set P A e ''1:1s'' = (Some (DurationTooShort Second offTime), e)"
    using event_Set_two_fields [of "''1''" "''1s''" P A e] one_short by simp
  have cnt: "length (strings_Split CHR '':'' s) \<noteq> 2 \<longrightarrow>
       event_Set P A e s = (Some (InvalidEvent s), e)"
    by (simp add: event_Set_def)
  have spl: "strings_Split CHR '':'' (a @ '':'' @ b) = [a, b]"
    using split_two_fields [OF assms] by simp
  show ?thesis
    unfolding two using scen cnt spl by (simp add: length_split)
qed


theorem event_Set_checks_witness:
  "event_Set sample_ParseDuration sample_Atoi (ten_seconds 5) ''1'' =
     (Some (InvalidEvent ''1''), ten_seconds 5) \<and>
   event_Set sample_ParseDuration sample_Atoi (ten_seconds 5) ''1:2:3'' =
     (Some (InvalidEvent ''1:2:3''), ten_seconds 5) \<and>
   event_Set sample_ParseDuration sample_Atoi (ten_seconds 5) ''1:soon'' =
     (Some (InvalidDuration ''soon'' ''invalid duration''), ten_seconds 5) \<and>
   event_Set sample_ParseDuration sample_Atoi (ten_seconds 5) ''1:1s'' =
     (Some (DurationTooShort Second offTime), ten_seconds 5) \<and>
   event_Set sample_ParseDuration sample_Atoi (ten_seconds 5) ''x:10s'' =
     (Some (InvalidId ''x'' (Some ''invalid syntax'')), ten_seconds 5) \<and>
   event_Set sample_ParseDuration sample_Atoi (ten_seconds 5) ''-1:10s'' =
     (Some (InvalidId ''-1'' None), ten_seconds 5) \<and>
   event_Set sample_ParseDuration sample_Atoi (ten_seconds 5) ''2:10s'' =
     (None, ten_seconds 2)"
  using
    event_Set_checks [of "''1''" "''soon''" "''1''" sample_ParseDuration sample_Atoi "ten_seconds 5"]
    event_Set_checks [of "''1''" "''1s''" "''1:2:3''" sample_ParseDuration sample_Atoi "ten_seconds 5"]
    event_Set_checks [of "''x''" "''10s''" "''1''" sample_ParseDuration sample_Atoi "ten_seconds 5"]
    event_Set_checks [of "''-1''" "''10s''" "''1''" sample_ParseDuration sample_Atoi "ten_seconds 5"]
    event_Set_checks [of "''2''" "''10s''" "''1''" sample_ParseDuration sample_Atoi "ten_seconds 5"]
  by (simp add: sample_ParseDuration_def sample_Atoi_def ten_seconds_def ten_not_short one_short
      two_not_neg word_sless_alt [of "- 1" 0])

text \<open>
  C9.  \<open>program.Set\<close> is not atomic: when the piece \<open>v\<close> after the pieces \<open>pre\<close> fails to
  parse, the events parsed from \<open>pre\<close> have been appended to the program and stay there
  when the error is returned.
\<close>

theorem program_Set_keeps_prefix:
  assumes "strings_Split CHR '','' s = pre @ v # post"
    and "list_all2 (\<lambda>t e. event_Set P A \<lparr>id_ev = 0, dur = 0\<rparr> t = (None, e)) pre es"
    and "event_Set P A \<lparr>id_ev = 0, dur = 0\<rparr> v = (Some err, e')"
  shows "program_Set P A p s = (Some err, p @ es) \<and> length es = length pre"
  using assms program_Set_partial [OF assms, of p] by (simp add: list_all2_lengthD)

theorem program_Set_keeps_prefix_witness:
  "strings_Split CHR '','' ''1:10s,2:1s,2:10s'' = [''1:10s''] @ ''2:1s'' # [''2:10s''] \<and>
   event_Set sample_ParseDuration sample_Atoi \<lparr>id_ev = 0, dur = 0\<rparr> ''1:10s'' = (None, ten_seconds 1) \<and>
   event_Set sample_ParseDuration sample_Atoi \<lparr>id_ev = 0, dur = 0\<rparr> ''2:1s'' =
     (Some (DurationTooShort Second offTime), \<lparr>id_ev = 0, dur = 0\<rparr>) \<and>
   program_Set sample_ParseDuration sample_Atoi [ten_seconds 2] ''1:10s,2:1s,2:10s'' =
     (Some (DurationTooShort Second offTime), [ten_seconds 2, ten_seconds 1]) \<and>
   program_Set sample_ParseDuration sample_Atoi [] ''1:10s,2:1s,2:10s'' =
     (Some (DurationTooShort Second offTime), [ten_seconds 1])"
proof -
  have sp: "strings_Split CHR '','' ''1:10s,2:1s,2:10s'' = [''1:10s''] @ ''2:1s'' # [''2:10s'']"
    by simp
  have e1: "event_Set sample_ParseDuration sample_Atoi \<lparr>id_ev = 0, dur = 0\<rparr> ''1:10s'' =
      (None, ten_seconds 1)"
    using event_Set_two_fields [of "''1''" "''10s''" sample_ParseDuration sample_Atoi "\<lparr>id_ev = 0, dur = 0\<rparr>"]
    by (simp add: sample_ParseDuration_def sample_Atoi_def ten_seconds_def ten_not_short one_not_neg)
  have e2: "event_Set sample_ParseDuration sample_Atoi \<lparr>id_ev = 0, dur = 0\<rparr> ''2:1s'' =
      (Some (DurationTooShort Second offTime), \<lparr>id_ev = 0, dur = 0\<rparr>)"
    using event_Set_two_fields [of "''2''" "''1s''" sample_ParseDuration sample_Atoi "\<lparr>id_ev = 0, dur = 0\<rparr>"]
    by (simp add: sample_ParseDuration_def sample_Atoi_def one_short)
  have l: "list_all2 (\<lambda>t e. event_Set sample_ParseDuration sample_Atoi \<lparr>id_ev = 0, dur = 0\<rparr> t = (None, e))
             [''1:10s''] [ten_seconds 1]"
    using e1 by simp
  show ?thesis
    using program_Set_keeps_prefix [OF sp l e2, of "[ten_seconds 2]"]
      program_Set_keeps_prefix [OF sp l e2, of "[]"] sp e1 e2
    by simp
qed

lemma sge9_pos: "9 \<le>s (i :: gint) \<Longrightarrow> 0 <s i"
  by (simp add: word_sle_eq word_sless_alt)

text \<open>
  C10.  \<open>event.Set\<close> has no upper bound on the zone id: every id that \<open>Atoi\<close> returns
  and that is not negative is accepted.  For every id of 9 or more the mask
  \<open>1 << (id - 1)\<close> of \<open>event.run\<close> has no bit in positions 0 to 7, \<open>relay2ic\<close> maps it to
  the wire byte 0, and the write issued to switch the zone on is the all-off transaction.
\<close>

theorem no_upper_bound_on_id:
  "(CHR '':'' \<notin> set a \<and> CHR '':'' \<notin> set b \<and> P b = Inr d \<and> \<not> d <s offTime \<and>
      A a = Inr i \<and> \<not> i <s 0 \<longrightarrow>
      event_Set P A e0 (a @ '':'' @ b) = (None, e0\<lparr>dur := d, id_ev := i\<rparr>)) \<and>
   (9 \<le>s id_ev e \<longrightarrow>
      event_mask e = push_bit (unat (id_ev e - 1)) 1 \<and>
      (\<forall>n<8. \<not> bit (event_mask e) n) \<and>
      relay2ic (event_mask e) = 0 \<and>
      take 2 (drop (length h) (snd (event_run env r e pct h))) =
        [SetCall (event_mask e), FileWrite (file_fd r) [writeAddress, 0]])"
proof (intro conjI impI)
  assume "CHR '':'' \<notin> set a \<and> CHR '':'' \<notin> set b \<and> P b = Inr d \<and> \<not> d <s offTime \<and>
      A a = Inr i \<and> \<not> i <s 0"
  then show "event_Set P A e0 (a @ '':'' @ b) = (None, e0\<lparr>dur := d, id_ev := i\<rparr>)"
    using event_Set_two_fields [of a b P A e0] by simp
next
  assume nine: "9 \<le>s id_ev e"
  then have k: "8 \<le> unat (id_ev e - 1)"
    by (rule sge9_unat)
  show m: "event_mask e = push_bit (unat (id_ev e - 1)) 1"
    using sge9_pos [OF nine] by (simp add: event_mask_def)
  show "\<forall>n<8. \<not> bit (event_mask e) n"
    unfolding m bit_push1 using k by auto
  show z: "relay2ic (event_mask e) = 0"
    unfolding m using k by (rule relay2ic_high_bit)
  have "\<exists>rest. snd (event_run env r e pct h) = h @ set_actions r (event_mask e) @ rest"
  proof (cases "fst (Relay_Set env r (event_mask e) h)")
    case None
    then show ?thesis
      by (simp add: event_run_ok event_actions_def)
  next
    case (Some x)
    then show ?thesis
      by (simp add: event_run_failed)
  qed
  then show "take 2 (drop (length h) (snd (event_run env r e pct h))) =
        [SetCall (event_mask e), FileWrite (file_fd r) [writeAddress, 0]]"
    using z by (auto simp add: set_actions_def)
qed

theorem no_upper_bound_on_id_witness:
  "event_Set sample_ParseDuration sample_Atoi (ten_seconds 0) (''70'' @ '':'' @ ''10s'') =
     (None, (ten_seconds 0)\<lparr>dur := 10 * Second, id_ev := 70\<rparr>) \<and>
   9 \<le>s id_ev (ten_seconds 70) \<and>
   relay2ic (event_mask (ten_seconds 70)) = 0 \<and>
   take 2 (drop (length ([] :: history)) (snd (event_run env_ok relay3 (ten_seconds 70) 100 []))) =
     [SetCall (event_mask (ten_seconds 70)), FileWrite (file_fd relay3) [writeAddress, 0]]"
proof -
  have nine: "9 \<le>s id_ev (ten_seconds 70)"
    by (simp add: ten_seconds_def)
  have a: "event_Set sample_ParseDuration sample_Atoi (ten_seconds 0) (''70'' @ '':'' @ ''10s'') =
     (None, (ten_seconds 0)\<lparr>dur := 10 * Second, id_ev := 70\<rparr>)"
    by (rule no_upper_bound_on_id [where a = "''70''" and b = "''10s''" and d = "10 * Second"
          and i = 70, THEN conjunct1, THEN mp])
       (simp add: sample_ParseDuration_def sample_Atoi_def ten_not_short word_sless_alt [of 70 0])
  have b: "event_mask (ten_seconds 70) = push_bit (unat (id_ev (ten_seconds 70) - 1)) 1 \<and>
      (\<forall>n<8. \<not> bit (event_mask (ten_seconds 70)) n) \<and>
      relay2ic (event_mask (ten_seconds 70)) = 0 \<and>
      take 2 (drop (length ([] :: history)) (snd (event_run env_ok relay3 (ten_seconds 70) 100 []))) =
        [SetCall (event_mask (ten_seconds 70)), FileWrite (file_fd relay3) [writeAddress, 0]]"
    using nine
    by (rule no_upper_bound_on_id [where e = "ten_seconds 70", THEN conjunct2, THEN mp])
  from a b nine show ?thesis
    by blast
qed

section \<open>The channel and the run\<close>

subsection \<open>Get\<close>

lemma Relay_Get_history: "snd (Relay_Get env r h) = h @ [FileRead (file_fd r) 2]"
  by (simp add: Relay_Get_def perform_def Let_def split: option.splits)

lemma len2: "length [a, b] = 2"
  by simp

lemma Relay_Get_unfold:
  "Relay_Get env r h =
     (case res_err (env (h @ [FileRead (file_fd r) 2])) of
        Some e \<Rightarrow> (0, Some (ReadError e))
      | None \<Rightarrow>
          if length (res_data (env (h @ [FileRead (file_fd r) 2]))) < 2
          then (0, Some (ReadShort (length (res_data (env (h @ [FileRead (file_fd r) 2])))) 2))
          else (ic2relay (res_data (env (h @ [FileRead (file_fd r) 2])) ! 1), None),
      h @ [FileRead (file_fd r) 2])"
  unfolding Relay_Get_def len2 perform_def Let_def
  by (auto split: option.splits simp add: min_def nth_append)

lemma ic2relay_4: "ic2relay 4 = 2"
  by (simp add: ic2relay_def upt8 addr2Relay_eq)

lemma ic2relay_0: "ic2relay 0 = 0"
  by (simp add: ic2relay_def upt8 addr2Relay_eq)

text \<open>
  C3, as stated, fails: \<open>Get\<close> writes nothing.  On a board that answers every
  operation, the only action of \<open>Get\<close> is one read of two bytes; no write of
  \<open>[0x00, 0x00]\<close> comes before it.
\<close>

theorem Get_issues_no_write:
  "snd (Relay_Get env_ok relay3 []) = [FileRead 3 2] \<and>
   writes (snd (Relay_Get env_ok relay3 [])) = [] \<and>
   snd (Relay_Get env_ok relay3 []) \<noteq> [FileWrite 3 [readAddress, 0], FileRead 3 2] \<and>
   fst (Relay_Get env_ok relay3 []) = (0, None)"
  by (simp add: Relay_Get_def perform_def Let_def env_ok_def ok_answer_def relay3_def
      readAddress_def ic2relay_0)

text \<open>
  C3, amended.  \<open>Get\<close> issues no write: its only action is one read into a two-byte
  buffer.  A read error gives \<open>ReadError\<close>, fewer than two bytes read give \<open>ReadShort\<close>,
  and otherwise the result is \<open>ic2relay\<close> of the second byte read.
\<close>

theorem Get_reads_two_bytes:
  "snd (Relay_Get env r h) = h @ [FileRead (file_fd r) 2] \<and>
   writes (snd (Relay_Get env r h)) = writes h \<and>
   (\<forall>e. res_err (env (h @ [FileRead (file_fd r) 2])) = Some e \<longrightarrow>
      fst (Relay_Get env r h) = (0, Some (ReadError e))) \<and>
   (res_err (env (h @ [FileRead (file_fd r) 2])) = None \<and>
    length (res_data (env (h @ [FileRead (file_fd r) 2]))) < 2 \<longrightarrow>
      fst (Relay_Get env r h) =
        (0, Some (ReadShort (length (res_data (env (h @ [FileRead (file_fd r) 2])))) 2))) \<and>
   (res_err (env (h @ [FileRead (file_fd r) 2])) = None \<and>
    2 \<le> length (res_data (env (h @ [FileRead (file_fd r) 2]))) \<longrightarrow>
      fst (Relay_Get env r h) =
        (ic2relay (res_data (env (h @ [FileRead (file_fd r) 2])) ! 1), None))"
proof (intro conjI allI impI)
  show "snd (Relay_Get env r h) = h @ [FileRead (file_fd r) 2]"
    by (rule Relay_Get_history)
  then show "writes (snd (Relay_Get env r h)) = writes h"
    by (simp add: writes_append)
next
  fix e assume "res_err (env (h @ [FileRead (file_fd r) 2])) = Some e"
  then show "fst (Relay_Get env r h) = (0, Some (ReadError e))"
    by (simp add: Relay_Get_unfold)
next
  assume "res_err (env (h @ [FileRead (file_fd r) 2])) = None \<and>
    length (res_data (env (h @ [FileRead (file_fd r) 2]))) < 2"
  then show "fst (Relay_Get env r h) =
        (0, Some (ReadShort (length (res_data (env (h @ [FileRead (file_fd r) 2])))) 2))"
    by (simp add: Relay_Get_unfold)
next
  assume "res_err (env (h @ [FileRead (file_fd r) 2])) = None \<and>
    2 \<le> length (res_data (env (h @ [FileRead (file_fd r) 2])))"
  then show "fst (Relay_Get env r h) =
        (ic2relay (res_data (env (h @ [FileRead (file_fd r) 2])) ! 1), None)"
    by (simp add: Relay_Get_unfold)
qed

theorem Get_reads_two_bytes_witness:
  "fst (Relay_Get env_read_fails relay3 []) = (0, Some (ReadError ''EIO'')) \<and>
   fst (Relay_Get env_short_read relay3 []) = (0, Some (ReadShort 1 2)) \<and>
   fst (Relay_Get env_busy relay3 []) = (2, None) \<and>
   snd (Relay_Get env_busy relay3 []) = [FileRead 3 2]"
  using Get_reads_two_bytes [of env_read_fails relay3 "[]"]
    Get_reads_two_bytes [of env_short_read relay3 "[]"]
    Get_reads_two_bytes [of env_busy relay3 "[]"]
  by (simp add: env_read_fails_def env_short_read_def env_busy_def ok_answer_def relay3_def
      ic2relay_4)

subsection \<open>The writes and the masks of a run\<close>

lemma writes_set_actions: "writes (set_actions r m) = [[writeAddress, relay2ic m]]"
  by (simp add: set_actions_def)

lemma set_calls_set_actions: "set_calls (set_actions r m) = [m]"
  by (simp add: set_actions_def)

lemma writes_event_actions:
  "writes (event_actions r pct e) = [[writeAddress, relay2ic (event_mask e)], [writeAddress, relay2ic 0]]"
  by (simp add: event_actions_def writes_append writes_set_actions)

lemma set_calls_event_actions: "set_calls (event_actions r pct e) = [event_mask e, 0]"
  by (simp add: event_actions_def set_calls_append set_calls_set_actions)

lemma set_calls_concat:
  "set_calls (concat (map (event_actions r pct) p)) = concat (map (\<lambda>e. [event_mask e, 0]) p)"
  by (induction p) (simp_all add: set_calls_append set_calls_event_actions)

lemma writes_concat_last:
  "p \<noteq> [] \<Longrightarrow> writes (concat (map (event_actions r pct) p)) \<noteq> [] \<and>
     last (writes (concat (map (event_actions r pct) p))) = [writeAddress, relay2ic 0]"
proof (induction p)
  case Nil
  then show ?case by simp
next
  case (Cons e es)
  then show ?case
    by (cases es) (simp_all add: writes_append writes_event_actions)
qed

lemma NewRelay_ok_history:
  "NewRelay env bus brd h = (RelayOk r, h1) \<Longrightarrow>
   h1 = h @ [FileOpen bus, FileIoctl (file_fd r) slaveAddress (baseAddress - ((brd - 1) AND 7))]"
  by (auto simp add: NewRelay_def Relay_Board_def perform_def Let_def
      split: if_splits option.splits prod.splits)

lemma Relay_Close_history: "snd (Relay_Close env r h) = h @ [FileClose (file_fd r)]"
  by (simp add: Relay_Close_def perform_def)

lemma main_relays_in_use:
  assumes "prog \<noteq> []" and "\<not> isDuration"
    and "NewRelay env bus brd [] = (RelayOk r, h1)"
    and "Relay_Get env r h1 = ((i, None), h2)"
    and "i \<noteq> 0"
  shows "main env prog brd bus scl isDuration [] = (RelaysInUse i, h2) \<and>
         h2 = [FileOpen bus,
               FileIoctl (file_fd r) slaveAddress (baseAddress - ((brd - 1) AND 7)),
               FileRead (file_fd r) 2] \<and>
         writes h2 = [] \<and> set_calls h2 = []"
proof -
  have m: "main env prog brd bus scl isDuration [] = (RelaysInUse i, h2)"
    using assms by (cases prog) (simp_all add: main_def)
  have "h1 = [FileOpen bus, FileIoctl (file_fd r) slaveAddress (baseAddress - ((brd - 1) AND 7))]"
    using NewRelay_ok_history [OF assms(3)] by simp
  moreover have "h2 = h1 @ [FileRead (file_fd r) 2]"
    using Relay_Get_history [of env r h1] assms(4) by simp
  ultimately have h2: "h2 = [FileOpen bus,
               FileIoctl (file_fd r) slaveAddress (baseAddress - ((brd - 1) AND 7)),
               FileRead (file_fd r) 2]"
    by simp
  from m h2 show ?thesis by simp
qed

lemma NewRelay_busy:
  "NewRelay env_busy 1 1 [] = (RelayOk relay3, [FileOpen 1, FileIoctl 3 slaveAddress baseAddress])"
  by (simp add: NewRelay_def Relay_Board_def perform_def Let_def env_busy_def ok_answer_def
      relay3_def word_sless_alt)

lemma Relay_Get_busy:
  "Relay_Get env_busy relay3 h = ((2, None), h @ [FileRead 3 2])"
  by (simp add: Relay_Get_unfold env_busy_def ok_answer_def relay3_def ic2relay_4)


subsection \<open>The last write\<close>

lemma wire_off: "[writeAddress, relay2ic 0] = [0x01, 0x00]"
  by (simp add: writeAddress_def relay2ic_zero)

lemma program_run_ok_last:
  assumes "p \<noteq> []" and "program_run env r p pct h = (None, h1)"
  shows "writes h1 \<noteq> [] \<and> last (writes h1) = [0x01, 0x00] \<and>
         set_calls h1 \<noteq> [] \<and> last (set_calls h1) = 0"
proof -
  have h1: "h1 = h @ concat (map (event_actions r pct) p)"
    using assms(2) by (rule program_run_None)
  have w: "writes (concat (map (event_actions r pct) p)) \<noteq> [] \<and>
     last (writes (concat (map (event_actions r pct) p))) = [writeAddress, relay2ic 0]"
    using assms(1) by (rule writes_concat_last)
  have c: "set_calls (concat (map (event_actions r pct) p)) \<noteq> [] \<and>
     last (set_calls (concat (map (event_actions r pct) p))) = 0"
    using assms(1) unfolding set_calls_concat
    by (induction p) (auto split: if_splits)
  show ?thesis
    unfolding h1 writes_append set_calls_append using w c by (simp add: wire_off)
qed

lemma main_Finished:
  assumes "main env prog brd bus scl isDuration [] = (Finished, hf)"
  shows "\<exists>r h2 h3. prog \<noteq> [] \<and> program_run env r prog scl h2 = (None, h3) \<and>
           hf = h3 @ [FileClose (file_fd r)]"
proof -
  from assms have ne: "prog \<noteq> []"
    by (auto simp add: main_def split: if_splits)
  show ?thesis
    using assms ne Relay_Close_history
    apply (simp add: main_def Let_def split: if_splits prod.splits new_relay.splits option.splits)
    apply (metis snd_conv)
    done
qed

lemma cleanup_signal_exit:
  assumes "s \<noteq> SIGURG" and "s \<noteq> SIGUSR1"
  shows "cleanup_signal env r s h = (Exited, h @ set_actions r 0 @ [FileClose (file_fd r), Exit 0])"
  using assms Relay_Set_history [of env r 0 h]
    Relay_Close_history [of env r "h @ set_actions r 0"]
  by (auto simp add: cleanup_signal_def perform_def Let_def split: prod.splits)

lemma cleanup_signal_continue:
  "s = SIGURG \<or> s = SIGUSR1 \<Longrightarrow>
   fst (cleanup_signal env r s h) = Continue \<and> writes (snd (cleanup_signal env r s h)) = writes h"
  using Relay_Get_history [of env r h]
  by (auto simp add: cleanup_signal_def Let_def writes_append SIGURG_def SIGUSR1_def split: prod.splits)

lemma cleanup_loop_exit:
  "\<exists>s \<in> set ss. s \<noteq> SIGURG \<and> s \<noteq> SIGUSR1 \<Longrightarrow>
   fst (cleanup_loop env r ss h) = Exited \<and>
   last (writes (snd (cleanup_loop env r ss h))) = [0x01, 0x00] \<and>
   last (snd (cleanup_loop env r ss h)) = Exit 0"
proof (induction ss arbitrary: h)
  case Nil
  then show ?case by simp
next
  case (Cons s ss)
  show ?case
  proof (cases "s = SIGURG \<or> s = SIGUSR1")
    case True
    then have c: "fst (cleanup_signal env r s h) = Continue"
      using cleanup_signal_continue by blast
    from True Cons.prems have "\<exists>s \<in> set ss. s \<noteq> SIGURG \<and> s \<noteq> SIGUSR1"
      by auto
    from Cons.IH [OF this] c show ?thesis
      by (cases "cleanup_signal env r s h") simp
  next
    case False
    then have "cleanup_signal env r s h =
        (Exited, h @ set_actions r 0 @ [FileClose (file_fd r), Exit 0])"
      using cleanup_signal_exit by blast
    then show ?thesis
      by (simp add: writes_append writes_set_actions wire_off)
  qed
qed

text \<open>
  What holds when nothing runs between the steps of a flow.  When \<open>program.run\<close>
  returns without error on a program that is not empty, the last write issued on the file
  is the all-off transaction \<open>[0x01, 0x00]\<close> and the last mask passed to \<open>Set\<close> is 0; the
  same holds for \<open>main\<close> when it finishes the program.  On a signal other than \<open>SIGURG\<close>
  and \<open>SIGUSR1\<close> the goroutine of \<open>cleanup\<close> calls \<open>Set(0)\<close>, closes the file and exits.
\<close>

lemma all_off_without_interleaving:
  "(p \<noteq> [] \<and> program_run env r p pct h = (None, h1) \<longrightarrow>
      writes h1 \<noteq> [] \<and> last (writes h1) = [0x01, 0x00] \<and> last (set_calls h1) = 0) \<and>
   (main env prog brd bus scl isDuration [] = (Finished, hf) \<longrightarrow>
      writes hf \<noteq> [] \<and> last (writes hf) = [0x01, 0x00]) \<and>
   (s \<noteq> SIGURG \<and> s \<noteq> SIGUSR1 \<longrightarrow>
      cleanup_signal env r s h =
        (Exited, h @ [SetCall 0, FileWrite (file_fd r) [0x01, 0x00], FileClose (file_fd r), Exit 0])) \<and>
   ((\<exists>s \<in> set ss. s \<noteq> SIGURG \<and> s \<noteq> SIGUSR1) \<longrightarrow>
      fst (cleanup_loop env r ss h) = Exited \<and>
      last (writes (snd (cleanup_loop env r ss h))) = [0x01, 0x00] \<and>
      last (snd (cleanup_loop env r ss h)) = Exit 0)"
proof (intro conjI impI)
  assume a: "p \<noteq> [] \<and> program_run env r p pct h = (None, h1)"
  then show "writes h1 \<noteq> []" "last (writes h1) = [0x01, 0x00]" "last (set_calls h1) = 0"
    using program_run_ok_last [of p env r pct h h1] by simp_all
next
  assume "main env prog brd bus scl isDuration [] = (Finished, hf)"
  then obtain r' h2 h3 where f: "prog \<noteq> []" "program_run env r' prog scl h2 = (None, h3)"
      "hf = h3 @ [FileClose (file_fd r')]"
    using main_Finished by blast
  then show "writes hf \<noteq> []" "last (writes hf) = [0x01, 0x00]"
    using program_run_ok_last [of prog env r' scl h2 h3] by (simp_all add: writes_append)
next
  assume "s \<noteq> SIGURG \<and> s \<noteq> SIGUSR1"
  then show "cleanup_signal env r s h =
        (Exited, h @ [SetCall 0, FileWrite (file_fd r) [0x01, 0x00], FileClose (file_fd r), Exit 0])"
    using cleanup_signal_exit [of s env r h] wire_off by (simp add: set_actions_def)
next
  assume a: "\<exists>s \<in> set ss. s \<noteq> SIGURG \<and> s \<noteq> SIGUSR1"
  then show "fst (cleanup_loop env r ss h) = Exited"
    "last (writes (snd (cleanup_loop env r ss h))) = [0x01, 0x00]"
    "last (snd (cleanup_loop env r ss h)) = Exit 0"
    using cleanup_loop_exit [of ss env r h] by simp_all
qed

lemma Relay_Set_env_ok: "fst (Relay_Set env_ok r m h) = None"
  by (simp add: Relay_Set_def perform_def Let_def env_ok_def ok_answer_def)

lemma program_run_env_ok:
  "program_run env_ok r p pct h = (None, h @ concat (map (event_actions r pct) p))"
  by (induction p arbitrary: h) (simp_all add: event_run_ok Relay_Set_env_ok)

lemma NewRelay_env_ok:
  "NewRelay env_ok 1 1 [] = (RelayOk relay3, [FileOpen 1, FileIoctl 3 slaveAddress baseAddress])"
  by (simp add: NewRelay_def Relay_Board_def perform_def Let_def env_ok_def ok_answer_def
      relay3_def word_sless_alt)

lemma Relay_Get_env_ok: "Relay_Get env_ok relay3 h = ((0, None), h @ [FileRead 3 2])"
  by (simp add: Relay_Get_unfold env_ok_def ok_answer_def relay3_def ic2relay_0)

lemma file_fd_relay3: "file_fd relay3 = 3"
  by (simp add: relay3_def)

lemma main_env_ok:
  "main env_ok [ten_seconds 1] 1 1 100 False [] =
     (Finished, [FileOpen 1, FileIoctl 3 slaveAddress baseAddress, FileRead 3 2] @
                event_actions relay3 100 (ten_seconds 1) @ [FileClose 3])"
  by (simp add: main_def NewRelay_env_ok Relay_Get_env_ok program_run_env_ok Relay_Close_def
      perform_def file_fd_relay3 del: program_run.simps)

subsection \<open>The check before the run\<close>

lemma NewRelay_no_writes:
  "writes (snd (NewRelay env bus brd [])) = [] \<and>
   set_calls (snd (NewRelay env bus brd [])) = []"
  by (auto simp add: NewRelay_def Relay_Board_def perform_def Let_def
      split: if_splits option.splits prod.splits)

lemma on_write_failure_aborts:
  assumes "fst (Relay_Set env r (event_mask e) h) = Some x"
  shows "program_run env r (e # es) pct h = (Some x, h @ set_actions r (event_mask e))"
  using assms by (simp add: event_run_failed)

lemma main_writes_only_after_idle_read:
  assumes "set_calls (snd (main env prog brd bus scl isDuration [])) \<noteq> [] \<or>
           writes (snd (main env prog brd bus scl isDuration [])) \<noteq> []"
  shows "\<exists>r h1 h2. NewRelay env bus brd [] = (RelayOk r, h1) \<and>
                    Relay_Get env r h1 = ((0, None), h2)"
proof (cases "NewRelay env bus brd []")
  case (Pair nr h1)
  note nw = NewRelay_no_writes [of env bus brd]
  show ?thesis
  proof (cases nr)
    case (NoRelay e)
    with Pair assms nw show ?thesis
      by (auto simp add: main_def split: if_splits)
  next
    case (RelayWithError r e)
    with Pair assms nw show ?thesis
      by (auto simp add: main_def split: if_splits)
  next
    case (RelayOk r)
    obtain i gerr h2 where g: "Relay_Get env r h1 = ((i, gerr), h2)"
      by (metis prod.exhaust)
    have h2: "h2 = h1 @ [FileRead (file_fd r) 2]"
      using Relay_Get_history [of env r h1] g by simp
    have nw2: "writes h2 = [] \<and> set_calls h2 = []"
      using nw Pair unfolding h2 by (simp add: writes_append set_calls_append)
    show ?thesis
    proof (cases "gerr = None \<and> i = 0")
      case True
      with g Pair RelayOk show ?thesis by simp
    next
      case False
      with g Pair RelayOk assms nw nw2 show ?thesis
        by (auto simp add: main_def split: if_splits option.splits)
    qed
  qed
qed

text \<open>
  C8.  Before it runs the program \<open>main\<close> reads the state of the relays with \<open>Get\<close>.
  When the mask read is not 0, \<open>main\<close> ends with the report that the relays are in use,
  having opened the bus, selected the board and read once: it has written nothing and
  never called \<open>Set\<close>.  In every execution of \<open>main\<close> that writes or calls \<open>Set\<close>, the
  board was opened and \<open>Get\<close> returned the mask 0 without error.
\<close>

theorem preflight_refuses_active_relays:
  "(prog \<noteq> [] \<and> \<not> isDuration \<and> NewRelay env bus brd [] = (RelayOk r, h1) \<and>
    Relay_Get env r h1 = ((i, None), h2) \<and> i \<noteq> 0 \<longrightarrow>
      main env prog brd bus scl isDuration [] = (RelaysInUse i, h2) \<and>
      h2 = [FileOpen bus,
            FileIoctl (file_fd r) slaveAddress (baseAddress - ((brd - 1) AND 7)),
            FileRead (file_fd r) 2] \<and>
      writes h2 = [] \<and> set_calls h2 = []) \<and>
   (set_calls (snd (main env prog brd bus scl isDuration [])) \<noteq> [] \<or>
    writes (snd (main env prog brd bus scl isDuration [])) \<noteq> [] \<longrightarrow>
      (\<exists>r' h1' h2'. NewRelay env bus brd [] = (RelayOk r', h1') \<and>
                      Relay_Get env r' h1' = ((0, None), h2')))"
proof (intro conjI impI)
  assume a: "prog \<noteq> [] \<and> \<not> isDuration \<and> NewRelay env bus brd [] = (RelayOk r, h1) \<and>
    Relay_Get env r h1 = ((i, None), h2) \<and> i \<noteq> 0"
  then show "main env prog brd bus scl isDuration [] = (RelaysInUse i, h2)"
    "h2 = [FileOpen bus,
            FileIoctl (file_fd r) slaveAddress (baseAddress - ((brd - 1) AND 7)),
            FileRead (file_fd r) 2]"
    "writes h2 = []" "set_calls h2 = []"
    using main_relays_in_use [of prog isDuration env bus brd r h1 i h2 scl] by simp_all
next
  assume "set_calls (snd (main env prog brd bus scl isDuration [])) \<noteq> [] \<or>
    writes (snd (main env prog brd bus scl isDuration [])) \<noteq> []"
  then show "\<exists>r' h1' h2'. NewRelay env bus brd [] = (RelayOk r', h1') \<and>
                      Relay_Get env r' h1' = ((0, None), h2')"
    by (rule main_writes_only_after_idle_read)
qed

theorem preflight_refuses_active_relays_witness:
  "NewRelay env_busy 1 1 [] =
     (RelayOk relay3, [FileOpen 1, FileIoctl 3 slaveAddress baseAddress]) \<and>
   Relay_Get env_busy relay3 [FileOpen 1, FileIoctl 3 slaveAddress baseAddress] =
     ((2, None), [FileOpen 1, FileIoctl 3 slaveAddress baseAddress, FileRead 3 2]) \<and>
   main env_busy [ten_seconds 1] 1 1 100 False [] =
     (RelaysInUse 2, [FileOpen 1, FileIoctl 3 slaveAddress baseAddress, FileRead 3 2]) \<and>
   writes [FileOpen 1, FileIoctl 3 slaveAddress baseAddress, FileRead 3 2] = [] \<and>
   set_calls [FileOpen 1, FileIoctl 3 slaveAddress baseAddress, FileRead 3 2] = [] \<and>
   writes (snd (main env_ok [ten_seconds 1] 1 1 100 False [])) \<noteq> [] \<and>
   (\<exists>r' h1' h2'. NewRelay env_ok 1 1 [] = (RelayOk r', h1') \<and>
                   Relay_Get env_ok r' h1' = ((0, None), h2'))"
proof -
  have g: "Relay_Get env_busy relay3 [FileOpen 1, FileIoctl 3 slaveAddress baseAddress] =
      ((2, None), [FileOpen 1, FileIoctl 3 slaveAddress baseAddress, FileRead 3 2])"
    by (simp add: Relay_Get_busy)
  have w: "writes (snd (main env_ok [ten_seconds 1] 1 1 100 False [])) \<noteq> []"
    unfolding main_env_ok by (simp add: writes_append writes_event_actions)
  show ?thesis
    using preflight_refuses_active_relays [of "[ten_seconds 1]" False env_busy 1 1 relay3
        "[FileOpen 1, FileIoctl 3 slaveAddress baseAddress]" 2
        "[FileOpen 1, FileIoctl 3 slaveAddress baseAddress, FileRead 3 2]" 100]
      preflight_refuses_active_relays [of "[ten_seconds 1]" False env_ok 1 1 relay3
        "[FileOpen 1, FileIoctl 3 slaveAddress baseAddress]" 2
        "[FileOpen 1, FileIoctl 3 slaveAddress baseAddress, FileRead 3 2]" 100]
      NewRelay_busy g w
    by simp
qed

subsection \<open>One zone at a time\<close>

lemma bits_push1: "{n. bit (push_bit k 1 :: gint) n} = (if k < 64 then {k} else {})"
  unfolding bit_push1 by auto

lemma bits_event_mask:
  "card {n. bit (event_mask e) n} \<le> 1 \<and>
   (event_mask e \<noteq> 0 \<longrightarrow> card {n. bit (event_mask e) n} = 1)"
proof (cases "0 <s id_ev e")
  case True
  then have m: "event_mask e = push_bit (unat (id_ev e - 1)) 1"
    by (simp add: event_mask_def)
  show ?thesis
  proof (cases "unat (id_ev e - 1) < 64")
    case True
    then show ?thesis unfolding m bits_push1 by simp
  next
    case False
    then have z: "push_bit (unat (id_ev e - 1)) (1 :: gint) = 0"
      by (intro bit_word_eqI) (simp add: bit_push1 del: push_bit_of_1)
    show ?thesis unfolding m z by simp
  qed
next
  case False
  then show ?thesis by (simp add: event_mask_def)
qed

lemma program_run_set_calls:
  "set (set_calls (drop (length h) (snd (program_run env r p pct h)))) \<subseteq> insert 0 (event_mask ` set p)"
proof (cases "program_run env r p pct h")
  case (Pair res h1)
  show ?thesis
  proof (cases res)
    case None
    with Pair have "h1 = h @ concat (map (event_actions r pct) p)"
      using program_run_None by blast
    with Pair show ?thesis
      by (auto simp add: set_calls_concat)
  next
    case (Some x)
    with Pair obtain k where k: "k < length p"
      "h1 = h @ concat (map (event_actions r pct) (take k p)) @ set_actions r (event_mask (p ! k))"
      using program_run_Some by blast
    have "set (take k p) \<subseteq> set p"
      by (rule set_take_subset)
    with Pair k show ?thesis
      by (auto simp add: set_calls_append set_calls_concat set_calls_set_actions)
  qed
qed

lemma spos_unat:
  assumes "0 <s (i :: gint)"
  shows "unat i = nat (sint i)"
proof -
  from assms have pos: "0 < sint i"
    by (simp add: word_sless_alt)
  define k where "k = nat (sint i)"
  have lt: "sint i < 2 ^ 63"
    using sint_lt [of i] by simp
  have "i = word_of_int (sint i)"
    by simp
  also have "\<dots> = word_of_nat k"
    using pos by (simp add: k_def)
  finally have ik: "i = word_of_nat k" .
  have "k < 2 ^ 64"
    using lt pos unfolding k_def by (simp add: nat_less_iff)
  then have "unat i = k"
    unfolding ik by (simp add: unat_of_nat)
  then show ?thesis
    by (simp add: k_def)
qed

lemma spos_pred:
  assumes "0 <s (i :: gint)"
  shows "unat (i - 1) = unat i - 1 \<and> 0 < unat i"
proof -
  have "unat i = nat (sint i)"
    using assms by (rule spos_unat)
  moreover have "0 < sint i"
    using assms by (simp add: word_sless_alt)
  ultimately have p: "0 < unat i"
    by simp
  then have "i \<noteq> 0"
    by auto
  then have "unat (i - 1) = unat i - 1"
    by (rule unat_minus_one)
  with p show ?thesis by simp
qed

lemma event_mask_small:
  assumes "0 <s id_ev e" and "id_ev e \<le>s 64"
  shows "event_mask e = push_bit (unat (id_ev e - 1)) 1 \<and> unat (id_ev e - 1) < 64 \<and>
         {n. bit (event_mask e) n} = {unat (id_ev e - 1)}"
proof -
  have m: "event_mask e = push_bit (unat (id_ev e - 1)) 1"
    using assms(1) by (simp add: event_mask_def)
  have "sint (id_ev e) \<le> 64"
    using assms(2) by (simp add: word_sle_eq)
  then have "unat (id_ev e) \<le> 64"
    using spos_unat [OF assms(1)] by simp
  then have lt: "unat (id_ev e - 1) < 64"
    using spos_pred [OF assms(1)] by simp
  then have "{n. bit (push_bit (unat (id_ev e - 1)) 1 :: gint) n} = {unat (id_ev e - 1)}"
    unfolding bits_push1 by simp
  with m lt show ?thesis by simp
qed

lemma event_mask_big:
  assumes "64 <s id_ev e"
  shows "event_mask e = 0"
proof -
  have big: "64 < sint (id_ev e)"
    using assms by (simp add: word_sless_alt)
  then have pos: "0 <s id_ev e"
    by (simp add: word_sless_alt)
  then have m: "event_mask e = push_bit (unat (id_ev e - 1)) 1"
    by (simp add: event_mask_def)
  have "64 < unat (id_ev e)"
    using spos_unat [OF pos] big by simp
  then have ge: "64 \<le> unat (id_ev e - 1)"
    using spos_pred [OF pos] by simp
  have "push_bit (unat (id_ev e - 1)) (1 :: gint) = 0"
    using ge by (intro bit_word_eqI) (simp add: bit_push1 del: push_bit_of_1)
  with m show ?thesis by simp
qed

lemma event_mask_nonpos: "id_ev e \<le>s 0 \<Longrightarrow> event_mask e = 0"
  by (simp add: event_mask_def word_sle_eq word_sless_alt)

lemma event_mask_70: "event_mask (ten_seconds 70) = 0"
  by (rule event_mask_big) (simp add: ten_seconds_def)

lemma dur_ten_seconds: "dur (ten_seconds i) = 10 * Second"
  by (simp add: ten_seconds_def)

lemma event_mask_1: "event_mask (ten_seconds 1) = 1"
  by (simp add: event_mask_def ten_seconds_def word_sless_alt)

lemma event_mask_2: "event_mask (ten_seconds 2) = 2"
  by (simp add: event_mask_def ten_seconds_def word_sless_alt)

text \<open>
  C7, as stated, fails for ids above 64: \<open>event.Set\<close> accepts the id 70, and the mask
  \<open>1 << 69\<close> of \<open>event.run\<close> is 0 in a 64-bit \<open>int\<close>.  The on-write of that event passes
  a mask without any bit, although the id is not 0.
\<close>

theorem id_70_mask_has_no_bit:
  "event_Set sample_ParseDuration sample_Atoi (ten_seconds 0) ''70:10s'' = (None, ten_seconds 70) \<and>
   id_ev (ten_seconds 70) \<noteq> 0 \<and>
   event_mask (ten_seconds 70) = 0 \<and>
   set_calls (snd (program_run env_ok relay3 [ten_seconds 70] 100 [])) = [0, 0]"
proof -
  have a: "event_Set sample_ParseDuration sample_Atoi (ten_seconds 0) ''70:10s'' =
      (None, ten_seconds 70)"
    using event_Set_two_fields [of "''70''" "''10s''" sample_ParseDuration sample_Atoi "ten_seconds 0"]
    by (simp add: sample_ParseDuration_def sample_Atoi_def ten_not_short ten_seconds_def
        word_sless_alt [of 70 0])
  have b: "id_ev (ten_seconds 70) \<noteq> 0"
    by (simp add: ten_seconds_def)
  have "snd (program_run env_ok relay3 [ten_seconds 70] 100 []) =
      [] @ concat (map (event_actions relay3 100) [ten_seconds 70])"
    by (simp add: program_run_env_ok del: program_run.simps)
  then have c: "set_calls (snd (program_run env_ok relay3 [ten_seconds 70] 100 [])) = [0, 0]"
    by (simp add: set_calls_event_actions event_mask_70 del: program_run.simps)
  from a b c event_mask_70 show ?thesis
    by simp
qed

text \<open>
  C7, amended.  No mask with more than one bit set is passed to \<open>Set\<close> during
  \<open>program.run\<close>: every mask passed is 0 or the mask of one of the events, and a run that
  returns without error passes, for each event in order, the mask of the event and then
  0.  The mask of an event is the single bit \<open>1 << (id - 1)\<close> when the id is from 1 to
  64, and then exactly one bit is set; it is 0 when the id is 0 (or negative) or above 64.
\<close>

theorem single_zone_masks:
  "(\<forall>m \<in> set (set_calls (drop (length h) (snd (program_run env r p pct h)))).
      card {n. bit m n} \<le> 1 \<and> (m = 0 \<or> m \<in> event_mask ` set p)) \<and>
   (fst (program_run env r p pct h) = None \<longrightarrow>
      set_calls (drop (length h) (snd (program_run env r p pct h))) =
        concat (map (\<lambda>e. [event_mask e, 0]) p)) \<and>
   (id_ev e \<le>s 0 \<or> 64 <s id_ev e \<longrightarrow> event_mask e = 0) \<and>
   (0 <s id_ev e \<and> id_ev e \<le>s 64 \<longrightarrow>
      event_mask e = push_bit (unat (id_ev e - 1)) 1 \<and> unat (id_ev e - 1) < 64 \<and>
      {n. bit (event_mask e) n} = {unat (id_ev e - 1)} \<and>
      card {n. bit (event_mask e) n} = 1)"
proof (intro conjI ballI impI)
  fix m assume m: "m \<in> set (set_calls (drop (length h) (snd (program_run env r p pct h))))"
  then have "m = 0 \<or> m \<in> event_mask ` set p"
    using program_run_set_calls [of h env r p pct] by auto
  then show "m = 0 \<or> m \<in> event_mask ` set p" .
  then show "card {n. bit m n} \<le> 1"
    using bits_event_mask by auto
next
  assume "fst (program_run env r p pct h) = None"
  then have "program_run env r p pct h = (None, snd (program_run env r p pct h))"
    by (metis prod.collapse)
  then have "snd (program_run env r p pct h) = h @ concat (map (event_actions r pct) p)"
    by (rule program_run_None)
  then show "set_calls (drop (length h) (snd (program_run env r p pct h))) =
        concat (map (\<lambda>e. [event_mask e, 0]) p)"
    by (simp add: set_calls_concat)
next
  assume "id_ev e \<le>s 0 \<or> 64 <s id_ev e"
  then show "event_mask e = 0"
    using event_mask_nonpos event_mask_big by blast
next
  assume a: "0 <s id_ev e \<and> id_ev e \<le>s 64"
  then have s: "event_mask e = push_bit (unat (id_ev e - 1)) 1 \<and> unat (id_ev e - 1) < 64 \<and>
         {n. bit (event_mask e) n} = {unat (id_ev e - 1)}"
    using event_mask_small by blast
  from s show "event_mask e = push_bit (unat (id_ev e - 1)) 1" by blast
  from s show "unat (id_ev e - 1) < 64" by blast
  from s show "{n. bit (event_mask e) n} = {unat (id_ev e - 1)}" by blast
  then show "card {n. bit (event_mask e) n} = 1" by simp
qed

theorem single_zone_masks_witness:
  "fst (program_run env_ok relay3 [ten_seconds 1, ten_seconds 2] 100 []) = None \<and>
   set_calls (drop (length ([] :: history))
      (snd (program_run env_ok relay3 [ten_seconds 1, ten_seconds 2] 100 []))) = [1, 0, 2, 0] \<and>
   card {n. bit (2 :: gint) n} \<le> 1 \<and>
   0 <s id_ev (ten_seconds 2) \<and> id_ev (ten_seconds 2) \<le>s 64 \<and>
   card {n. bit (event_mask (ten_seconds 2)) n} = 1 \<and>
   64 <s id_ev (ten_seconds 70) \<and> event_mask (ten_seconds 70) = 0"
proof -
  have run: "fst (program_run env_ok relay3 [ten_seconds 1, ten_seconds 2] 100 []) = None"
    by (simp add: program_run_env_ok del: program_run.simps)
  have id2: "0 <s id_ev (ten_seconds 2) \<and> id_ev (ten_seconds 2) \<le>s 64"
    by (simp add: ten_seconds_def word_sless_alt)
  have id70: "64 <s id_ev (ten_seconds 70)"
    by (simp add: ten_seconds_def)
  note w = single_zone_masks [of "[]" env_ok relay3 "[ten_seconds 1, ten_seconds 2]" 100
      "ten_seconds 2"]
  note w70 = single_zone_masks [of "[]" env_ok relay3 "[ten_seconds 1, ten_seconds 2]" 100
      "ten_seconds 70"]
  from w run have calls: "set_calls (drop (length ([] :: history))
      (snd (program_run env_ok relay3 [ten_seconds 1, ten_seconds 2] 100 []))) = [1, 0, 2, 0]"
    by (simp add: event_mask_1 event_mask_2 del: program_run.simps)
  from w have B: "\<forall>m \<in> set [1, 0, 2, 0 :: gint]. card {n. bit m n} \<le> 1"
    unfolding calls by blast
  have mem2: "2 \<in> set [1, 0, 2, 0 :: gint]"
    by simp
  from B mem2 have c2: "card {n. bit (2 :: gint) n} \<le> 1"
    by blast
  from w id2 have c1: "card {n. bit (event_mask (ten_seconds 2)) n} = 1"
    by blast
  from w70 id70 have z: "event_mask (ten_seconds 70) = 0"
    by blast
  from run calls c2 id2 c1 id70 z show ?thesis
    by blast
qed

subsection \<open>Failing writes\<close>

lemma relay2ic_1: "relay2ic 1 = 1"
  by (simp add: relay2ic_def upt8 relay2Addr_def)

lemma relay2ic_2: "relay2ic 2 = 4"
  by (simp add: relay2ic_def upt8 relay2Addr_def)

lemma on1_ok: "fst (Relay_Set env_second_write_fails relay3 (event_mask (ten_seconds 1)) []) = None"
  by (simp add: Relay_Set_def perform_def Let_def env_second_write_fails_def is_write_def
      ok_answer_def)

lemma off1_fails:
  "fst (Relay_Set env_second_write_fails relay3 0
         (set_actions relay3 (event_mask (ten_seconds 1)) @ [Sleep (scale (dur (ten_seconds 1)) 100)])) =
     Some (SetError ''EIO'')"
  by (simp add: Relay_Set_def perform_def Let_def env_second_write_fails_def is_write_def
      ok_answer_def set_actions_def writes_append)

lemma on2_ok:
  "fst (Relay_Set env_second_write_fails relay3 (event_mask (ten_seconds 2))
         (event_actions relay3 100 (ten_seconds 1))) = None"
  by (simp add: Relay_Set_def perform_def Let_def env_second_write_fails_def is_write_def
      ok_answer_def writes_append writes_event_actions)

lemma actions_1:
  "event_actions relay3 100 (ten_seconds 1) =
     [SetCall 1, FileWrite 3 [0x01, 0x01], Sleep (10 * Second),
      SetCall 0, FileWrite 3 [0x01, 0x00], Sleep offTime]"
  by (simp add: event_actions_def set_actions_def event_mask_1 relay2ic_1 relay2ic_zero
      writeAddress_def file_fd_relay3 dur_ten_seconds scale_10s)

lemma actions_2:
  "event_actions relay3 100 (ten_seconds 2) =
     [SetCall 2, FileWrite 3 [0x01, 0x04], Sleep (10 * Second),
      SetCall 0, FileWrite 3 [0x01, 0x00], Sleep offTime]"
  by (simp add: event_actions_def set_actions_def event_mask_2 relay2ic_2 relay2ic_zero
      writeAddress_def file_fd_relay3 dur_ten_seconds scale_10s)

lemma Relay_Set_env_write_fails:
  "fst (Relay_Set env_write_fails r m h) = Some (SetError ''EIO'')"
  by (simp add: Relay_Set_def perform_def Let_def env_write_fails_def is_write_def ok_answer_def)

text \<open>
  When the first on-write fails the run ends there: nothing is slept, nothing else is
  written, the error is returned.
\<close>

lemma failed_on_write_example:
  "program_run env_write_fails relay3 [ten_seconds 1, ten_seconds 2] 100 [] =
     (Some (SetError ''EIO''), [SetCall 1, FileWrite 3 [0x01, 0x01]])"
proof -
  have "fst (Relay_Set env_write_fails relay3 (event_mask (ten_seconds 1)) []) =
      Some (SetError ''EIO'')"
    by (rule Relay_Set_env_write_fails)
  then have "program_run env_write_fails relay3 (ten_seconds 1 # [ten_seconds 2]) 100 [] =
      (Some (SetError ''EIO''), [] @ set_actions relay3 (event_mask (ten_seconds 1)))"
    by (rule on_write_failure_aborts)
  then show ?thesis
    by (simp add: set_actions_def event_mask_1 relay2ic_1 writeAddress_def file_fd_relay3
        del: program_run.simps)
qed

text \<open>
  C2.  A failing on-write aborts the run (\<open>on_write_failure_aborts\<close>), but the error of
  the off-write is dropped: when the second write of the run, the \<open>Set(0)\<close> of
  the first event, fails, \<open>program.run\<close> still switches zone 2 on and returns no error.
\<close>

theorem off_write_failure_is_dropped:
  "fst (Relay_Set env_second_write_fails relay3 0
         [SetCall 1, FileWrite 3 [0x01, 0x01], Sleep (10 * Second)]) = Some (SetError ''EIO'') \<and>
   program_run env_second_write_fails relay3 [ten_seconds 1, ten_seconds 2] 100 [] =
     (None,
      [SetCall 1, FileWrite 3 [0x01, 0x01], Sleep (10 * Second),
       SetCall 0, FileWrite 3 [0x01, 0x00], Sleep offTime,
       SetCall 2, FileWrite 3 [0x01, 0x04], Sleep (10 * Second),
       SetCall 0, FileWrite 3 [0x01, 0x00], Sleep offTime])"
proof -
  have e1: "event_run env_second_write_fails relay3 (ten_seconds 1) 100 [] =
      (None, [] @ event_actions relay3 100 (ten_seconds 1))"
    using on1_ok by (rule event_run_ok)
  have e2: "event_run env_second_write_fails relay3 (ten_seconds 2) 100
        (event_actions relay3 100 (ten_seconds 1)) =
      (None, event_actions relay3 100 (ten_seconds 1) @ event_actions relay3 100 (ten_seconds 2))"
    using on2_ok by (rule event_run_ok)
  have run: "program_run env_second_write_fails relay3 [ten_seconds 1, ten_seconds 2] 100 [] =
      (None, event_actions relay3 100 (ten_seconds 1) @ event_actions relay3 100 (ten_seconds 2))"
    using e1 e2 by simp
  have off: "fst (Relay_Set env_second_write_fails relay3 0
         [SetCall 1, FileWrite 3 [0x01, 0x01], Sleep (10 * Second)]) = Some (SetError ''EIO'')"
    using off1_fails
    by (simp add: set_actions_def event_mask_1 relay2ic_1 writeAddress_def file_fd_relay3
        dur_ten_seconds scale_10s)
  show ?thesis
    using run off unfolding actions_1 actions_2 by simp
qed

subsection \<open>A signal during the run\<close>

lemma interleave_Returned:
  "g \<noteq> Gone \<Longrightarrow>
   interleave env r pct (replicate k MainFlow) (Returned x) g h = (Returned x, g, h)"
  by (induction k) (cases g; simp)+

lemma four_steps_ok:
  assumes "g \<noteq> Gone" and "fst (Relay_Set env r (event_mask e) h) = None"
  shows "interleave env r pct (MainFlow # MainFlow # MainFlow # MainFlow # ts)
           (Running (e # es) OnWrite) g h =
         interleave env r pct ts (Running es OnWrite) g (h @ event_actions r pct e)"
proof -
  have s1: "Relay_Set env r (event_mask e) h = (None, h @ set_actions r (event_mask e))"
    using assms(2) Relay_Set_history [of env r "event_mask e" h]
    by (metis prod.collapse)
  show ?thesis
    using assms(1) s1
    by (cases g) (simp_all add: event_actions_def perform_def Relay_Set_history)
qed

lemma one_step_failed:
  assumes "g \<noteq> Gone" and "fst (Relay_Set env r (event_mask e) h) = Some x"
  shows "interleave env r pct (MainFlow # ts) (Running (e # es) OnWrite) g h =
         interleave env r pct ts (Returned (Some x)) g (h @ set_actions r (event_mask e))"
proof -
  have s1: "Relay_Set env r (event_mask e) h = (Some x, h @ set_actions r (event_mask e))"
    using assms(2) Relay_Set_history [of env r "event_mask e" h]
    by (metis prod.collapse)
  show ?thesis
    using assms(1) s1 by (cases g) simp_all
qed

text \<open>
  Scheduled alone, the main flow does what \<open>program_run\<close> does and the goroutine what
  \<open>cleanup_signal\<close> does, so the steps are those of the functions above.
\<close>

lemma main_flow_alone:
  "g \<noteq> Gone \<Longrightarrow> 4 * length p < n \<Longrightarrow>
   interleave env r pct (replicate n MainFlow) (Running p OnWrite) g h =
     (Returned (fst (program_run env r p pct h)), g, snd (program_run env r p pct h))"
proof (induction p arbitrary: n h)
  case Nil
  then obtain k where n: "n = Suc k"
    by (cases n) auto
  show ?case
    using Nil.prems(1) interleave_Returned [OF Nil.prems(1)] unfolding n
    by (cases g) simp_all
next
  case (Cons e es)
  then obtain k where n: "n = Suc (Suc (Suc (Suc k)))" and k: "4 * length es < k"
    by (cases n; simp; rename_tac a; case_tac a; simp; rename_tac b; case_tac b; simp;
        rename_tac c; case_tac c; simp)
  show ?case
  proof (cases "fst (Relay_Set env r (event_mask e) h)")
    case None
    have "interleave env r pct (replicate n MainFlow) (Running (e # es) OnWrite) g h =
        interleave env r pct (replicate k MainFlow) (Running es OnWrite) g (h @ event_actions r pct e)"
      unfolding n using four_steps_ok [OF Cons.prems(1) None] by simp
    also have "\<dots> = (Returned (fst (program_run env r es pct (h @ event_actions r pct e))), g,
        snd (program_run env r es pct (h @ event_actions r pct e)))"
      using Cons.IH [OF Cons.prems(1) k] .
    finally show ?thesis
      using event_run_ok [OF None] by simp
  next
    case (Some x)
    have "interleave env r pct (replicate n MainFlow) (Running (e # es) OnWrite) g h =
        interleave env r pct (replicate (Suc (Suc (Suc k))) MainFlow) (Returned (Some x)) g
          (h @ set_actions r (event_mask e))"
      unfolding n using one_step_failed [OF Cons.prems(1) Some] by simp
    also have "\<dots> = (Returned (Some x), g, h @ set_actions r (event_mask e))"
      using Cons.prems(1) by (rule interleave_Returned)
    finally show ?thesis
      using event_run_failed [OF Some] by simp
  qed
qed

lemma handler_alone:
  assumes "s \<noteq> SIGURG" and "s \<noteq> SIGUSR1"
  shows "interleave env r pct [Handler, Handler, Handler] m AtSet h =
           (m, Gone, snd (cleanup_signal env r s h))"
  using assms cleanup_signal_exit [of s env r h]
  by (simp add: Relay_Set_history Relay_Close_history perform_def)

text \<open>
  C4.  After \<open>program.run\<close> completes, or when the run is interrupted by a terminating
  signal, the last write issued should be the all-off transaction; the comment of
  \<open>cleanup\<close> says it ensures that all sprinklers are off if the program is terminated.
  The code does not ensure it: under the schedule \<open>race_schedule\<close> the on-write of zone
  2 falls between the \<open>r.Set(0)\<close> and the \<open>os.Exit(0)\<close> of the goroutine, and the process
  exits with \<open>[0x01, 0x04]\<close> as its last write, zone 2 switched on.
\<close>

theorem termination_race_leaves_zone_on:
  "interleave env_ok relay3 100 race_schedule (Running [ten_seconds 1, ten_seconds 2] OnWrite)
     AtSet [] =
     (Running [ten_seconds 2] OnSleep, Gone,
      [SetCall 1, FileWrite 3 [0x01, 0x01], Sleep (10 * Second),
       SetCall 0, FileWrite 3 [0x01, 0x00], Sleep offTime,
       SetCall 0, FileWrite 3 [0x01, 0x00],
       SetCall 2, FileWrite 3 [0x01, 0x04],
       FileClose 3, Exit 0]) \<and>
   last (writes
      [SetCall 1, FileWrite 3 [0x01, 0x01], Sleep (10 * Second),
       SetCall 0, FileWrite 3 [0x01, 0x00], Sleep offTime,
       SetCall 0, FileWrite 3 [0x01, 0x00],
       SetCall 2, FileWrite 3 [0x01, 0x04],
       FileClose 3, Exit 0]) = [0x01, 0x04]"
proof -
  have ok: "\<And>m h. Relay_Set env_ok relay3 m h = (None, h @ set_actions relay3 m)"
    using Relay_Set_env_ok Relay_Set_history by (metis prod.collapse)
  have "interleave env_ok relay3 100 race_schedule (Running [ten_seconds 1, ten_seconds 2] OnWrite)
     AtSet [] =
     (Running [ten_seconds 2] OnSleep, Gone,
      event_actions relay3 100 (ten_seconds 1) @ set_actions relay3 0 @
      set_actions relay3 (event_mask (ten_seconds 2)) @ [FileClose (file_fd relay3), Exit 0])"
    by (simp add: race_schedule_def ok event_actions_def perform_def Relay_Close_def)
  then show ?thesis
    by (simp add: actions_1 set_actions_def event_mask_2 relay2ic_2 relay2ic_zero
        writeAddress_def file_fd_relay3)
qed

end
